theory Spec2Isabelle
  imports Main "HOL-Library.Monad_Syntax"
begin

section \<open>Data model of the pager\<close>

text \<open>
  The pager (\<^verbatim>\<open>pager.c\<close>) keeps one \<^verbatim>\<open>struct Line\<close> per displayed line.  Field
  \<^verbatim>\<open>f\<close> of a C struct is written with the initial of its struct in front
  (\<^verbatim>\<open>l_offset\<close> for \<^verbatim>\<open>Line.offset\<close>, \<^verbatim>\<open>s_first\<close> for \<^verbatim>\<open>Syntax.first\<close>), since
  record fields are global constants in HOL.  C strings are \<^typ>\<open>string\<close> without
  their terminating NUL byte; \<^verbatim>\<open>s + k\<close> is \<^term>\<open>drop k s\<close> and \<^verbatim>\<open>!s[k]\<close> is
  \<^term>\<open>length s \<le> k\<close>.
\<close>

text \<open>
  The values stored in \<^verbatim>\<open>Line.type\<close>: the members of \<^verbatim>\<open>enum ColorId\<close> that
  \<^verbatim>\<open>pager.c\<close> assigns to it, and \<^verbatim>\<open>MT_COLOR_UNSET\<close> for the initial \<^verbatim>\<open>-1\<close>.
\<close>

datatype ColorId =
    MT_COLOR_UNSET
  | MT_COLOR_NORMAL
  | MT_COLOR_HEADER
  | MT_COLOR_HDEFAULT
  | MT_COLOR_QUOTED
  | MT_COLOR_SIGNATURE
  | MT_COLOR_ATTACHMENT
  | MT_COLOR_MESSAGE_LOG

record Syntax =
  s_color :: int
  s_first :: int
  s_last :: int

text \<open>
  \<^verbatim>\<open>struct Line\<close>.  \<^verbatim>\<open>syntax\<close> always points to at least one element;
  \<^verbatim>\<open>search\<close> is \<^term>\<open>None\<close> for the null pointer; \<^verbatim>\<open>quote\<close> is the address of
  a quote class.
\<close>

record Line =
  l_offset :: int
  l_type :: ColorId
  l_continuation :: int
  l_chunks :: int
  l_search_cnt :: int
  l_syntax :: "Syntax list"
  l_search :: "Syntax list option"
  l_quote :: "nat option"
  l_is_cont_hdr :: nat

text \<open>
  A compiled \<^verbatim>\<open>regex_t\<close> is the function \<^verbatim>\<open>regexec\<close> computes on it: from the
  subject string and the \<^verbatim>\<open>REG_NOTBOL\<close> flag to \<^verbatim>\<open>pmatch[0]\<close>
  (\<^verbatim>\<open>rm_so\<close>, \<^verbatim>\<open>rm_eo\<close>), or \<^term>\<open>None\<close> for \<^verbatim>\<open>REG_NOMATCH\<close>.
\<close>

type_synonym regex_t = "string \<Rightarrow> bool \<Rightarrow> (nat \<times> nat) option"

text \<open>
  \<^verbatim>\<open>isdigit\<close> of the C library, and the byte of a C string at an index: the
  terminating NUL stands at index \<^term>\<open>length buf\<close>.  The functions below read
  beyond it only where the C code would leave its buffer.
\<close>

definition isdigit :: "char \<Rightarrow> bool" where
  "isdigit c = (48 \<le> (of_char c :: nat) \<and> (of_char c :: nat) \<le> 57)"

definition byte_at :: "string \<Rightarrow> nat \<Rightarrow> char" where
  "byte_at buf k = (if k < length buf then buf ! k else CHR 0x00)"

section \<open>Signature detection\<close>

definition NUM_SIG_LINES :: nat where
  "NUM_SIG_LINES = 4"

text \<open>
  Modelled from the spec: the macro \<^verbatim>\<open>ISSPACE\<close> (\<^verbatim>\<open>isspace\<close> on an unsigned
  char) is not under src/; whitespace is space, tab, newline, vertical tab, form feed
  and carriage return, as in the C locale.
\<close>

definition ISSPACE :: "char \<Rightarrow> bool" where
  "ISSPACE c = (of_char c \<in> {32, 9, 10, 11, 12, 13 :: nat})"

text \<open>
  The first loop of \<^verbatim>\<open>check_sig\<close>: walk upwards from line \<open>n\<close> while the line is
  typed Signature, \<open>n > 0\<close> and \<open>count \<le> NUM_SIG_LINES\<close>.
\<close>

fun check_sig_count :: "Line list \<Rightarrow> nat \<Rightarrow> nat \<Rightarrow> nat" where
  "check_sig_count info n count =
     (if n > 0 \<and> count \<le> NUM_SIG_LINES then
        (if l_type (info ! n) \<noteq> MT_COLOR_SIGNATURE then count
         else check_sig_count info (n - 1) (count + 1))
      else count)"

declare check_sig_count.simps [simp del]

text \<open>The blank-line loop of \<^verbatim>\<open>check_sig\<close>.\<close>

fun check_sig_blank :: "string \<Rightarrow> int" where
  "check_sig_blank [] = -1"
| "check_sig_blank (c # s) = (if \<not> ISSPACE c then 0 else check_sig_blank s)"

definition check_sig :: "string \<Rightarrow> Line list \<Rightarrow> nat \<Rightarrow> int" where
  "check_sig s info n =
     (let count = check_sig_count info n 0 in
      if count = 0 then -1
      else if count > NUM_SIG_LINES then check_sig_blank s
      else 0)"

section \<open>Quote detection\<close>

text \<open>
  \<^verbatim>\<open>mutt_is_quote_line\<close>.  The result is \<^term>\<open>None\<close> when \<^verbatim>\<open>is_quote\<close> is false,
  and \<^verbatim>\<open>pmatch[0]\<close> as the last \<^verbatim>\<open>regexec\<close> left it otherwise.  \<^term>\<open>None\<close> for
  a regex stands for an unset \<^verbatim>\<open>C_QuoteRegex\<close> or \<^verbatim>\<open>C_Smileys\<close>.  Writing a NUL at
  \<^verbatim>\<open>line[smatch[0].rm_so]\<close> cuts the line to its first \<^verbatim>\<open>rm_so\<close> bytes.
\<close>

definition mutt_is_quote_line ::
  "regex_t option \<Rightarrow> regex_t option \<Rightarrow> string \<Rightarrow> (nat \<times> nat) option" where
  "mutt_is_quote_line C_QuoteRegex C_Smileys line =
     (case C_QuoteRegex of
        None \<Rightarrow> None
      | Some qr \<Rightarrow>
          (case qr line False of
             None \<Rightarrow> None
           | Some pmatch \<Rightarrow>
               (case C_Smileys of
                  None \<Rightarrow> Some pmatch
                | Some sr \<Rightarrow>
                    (case sr line False of
                       None \<Rightarrow> Some pmatch
                     | Some smatch \<Rightarrow>
                         if fst smatch > 0 then qr (take (fst smatch) line) False
                         else None))))"

text \<open>
  Two concrete patterns for evaluation: \<^verbatim>\<open>^[>:]\<close> as the quote pattern and the
  literal \<^verbatim>\<open>:-)\<close> as the smiley pattern.
\<close>

definition quote_rx_ex :: regex_t where
  "quote_rx_ex s notbol =
     (case s of
        [] \<Rightarrow> None
      | c # _ \<Rightarrow> if \<not> notbol \<and> (c = CHR ''>'' \<or> c = CHR '':'') then Some (0, 1) else None)"

fun find_literal :: "string \<Rightarrow> string \<Rightarrow> nat \<Rightarrow> (nat \<times> nat) option" where
  "find_literal pat [] k = (if pat = [] then Some (k, k) else None)"
| "find_literal pat (c # s) k =
     (if take (length pat) (c # s) = pat then Some (k, k + length pat)
      else find_literal pat s (Suc k))"

definition smiley_rx_ex :: regex_t where
  "smiley_rx_ex s notbol = find_literal '':-)'' s 0"

text \<open>The flags of a \<^verbatim>\<open>PagerFlags\<close> word (\<^verbatim>\<open>pager.h\<close>).\<close>

datatype PagerFlag =
    MUTT_SHOWFLAT
  | MUTT_SHOWCOLOR
  | MUTT_HIDE
  | MUTT_SEARCH
  | MUTT_TYPES
  | MUTT_PAGER_NSKIP
  | MUTT_PAGER_MARKER
  | MUTT_PAGER_RETWINCH
  | MUTT_PAGER_LOGS
  | MUTT_PAGER_NOWRAP

section \<open>Pattern highlighting\<close>

text \<open>
  \<^verbatim>\<open>struct ColorLine\<close> (declared in \<^verbatim>\<open>color.h\<close>): the fields the pager uses.
  \<^verbatim>\<open>ColorBodyList\<close>, \<^verbatim>\<open>ColorHdrList\<close> and \<^verbatim>\<open>ColorAttachList\<close> are lists of
  them, in declaration order.
\<close>

record ColorLine =
  cl_regex :: regex_t
  cl_pair :: int
  cl_stop_matching :: bool

text \<open>
  An access outside an array is undefined behaviour in C; the model stops with a fault.
\<close>

datatype fault = OutOfBounds

definition SHRT_MAX :: int where
  "SHRT_MAX = 32767"

text \<open>
  \<^verbatim>\<open>Line.chunks\<close> is a \<^verbatim>\<open>short\<close>: \<^verbatim>\<open>++chunks\<close> computes in \<^verbatim>\<open>int\<close> and converts
  back, which wraps modulo \<open>2 ^ 16\<close> into \<open>-32768 \<dots> 32767\<close>.
\<close>

definition short_of :: "int \<Rightarrow> int" where
  "short_of x = (x + 32768) mod 65536 - 32768"

text \<open>
  \<^verbatim>\<open>mutt_mem_realloc\<close> of the chunk array to \<open>n\<close> elements.  New elements are
  uninitialised memory; the passes write each one before reading it.
\<close>

definition syntax_uninit :: Syntax where
  "syntax_uninit = \<lparr> s_color = 0, s_first = 0, s_last = 0 \<rparr>"

definition realloc_syntax :: "Syntax list \<Rightarrow> nat \<Rightarrow> Syntax list" where
  "realloc_syntax syn n = take n syn @ replicate (n - length syn) syntax_uninit"

text \<open>
  The local variables of one \<^verbatim>\<open>do\<close> iteration of a highlight pass, with the chunk
  count and chunk array of the line; \<^verbatim>\<open>r_break\<close> records that the rule loop was left
  by \<^verbatim>\<open>break\<close>.
\<close>

record rule_st =
  r_found :: bool
  r_null_rx :: bool
  r_i :: int
  r_chunks :: int
  r_syntax :: "Syntax list"
  r_break :: bool

text \<open>
  The statements run for a non-empty match in both passes, after the chunk count has
  been settled: \<^verbatim>\<open>i = chunks - 1\<close>, the offsets are made absolute, and the chunk is
  overwritten when it is the first of this iteration, starts earlier, or starts at the
  same place and ends later.
\<close>

definition record_match :: "nat \<Rightarrow> int \<Rightarrow> nat \<times> nat \<Rightarrow> rule_st \<Rightarrow> int \<Rightarrow> Syntax list \<Rightarrow>
    fault + rule_st" where
  "record_match offset pair pmatch st chunks syn =
     (let i = chunks - 1;
          rm_so = int (fst pmatch) + int offset;
          rm_eo = int (snd pmatch) + int offset
      in if i < 0 \<or> int (length syn) \<le> i then Inl OutOfBounds
         else
           Inr (st\<lparr> r_found := True, r_null_rx := False, r_i := i, r_chunks := chunks,
                   r_syntax :=
                     (if \<not> r_found st \<or> rm_so < s_first (syn ! nat i) \<or>
                         (rm_so = s_first (syn ! nat i) \<and> rm_eo > s_last (syn ! nat i))
                      then syn[nat i := \<lparr> s_color = pair, s_first = rm_so, s_last = rm_eo \<rparr>]
                      else syn) \<rparr>))"

text \<open>
  The body of \<^verbatim>\<open>STAILQ_FOREACH\<close> in the body/header pass of \<^verbatim>\<open>resolve_types\<close>, for
  one rule.  The regex is given \<^verbatim>\<open>buf + offset\<close> and \<^verbatim>\<open>REG_NOTBOL\<close> when the offset
  is not 0.
\<close>

definition body_rule :: "string \<Rightarrow> nat \<Rightarrow> ColorLine \<Rightarrow> rule_st \<Rightarrow> fault + (ColorLine \<times> rule_st)" where
  "body_rule buf offset cl st =
     (case (if cl_stop_matching cl then None else cl_regex cl (drop offset buf) (offset \<noteq> 0)) of
        None \<Rightarrow> Inr (cl\<lparr> cl_stop_matching := True \<rparr>, st)
      | Some pmatch \<Rightarrow>
          if snd pmatch \<noteq> fst pmatch then
            if \<not> r_found st \<and> r_chunks st = SHRT_MAX
            then Inr (cl, st\<lparr> r_null_rx := False, r_break := True \<rparr>)
            else
              (let chunks = (if r_found st then r_chunks st else short_of (r_chunks st + 1));
                   syn = (if \<not> r_found st \<and> chunks > 1
                          then realloc_syntax (r_syntax st) (nat chunks) else r_syntax st)
               in case record_match offset (cl_pair cl) pmatch st chunks syn of
                    Inl e \<Rightarrow> Inl e
                  | Inr st' \<Rightarrow> Inr (cl, st'))
          else Inr (cl, st\<lparr> r_null_rx := True \<rparr>))"

fun body_rules :: "string \<Rightarrow> nat \<Rightarrow> ColorLine list \<Rightarrow> rule_st \<Rightarrow>
    fault + (ColorLine list \<times> rule_st)" where
  "body_rules buf offset [] st = Inr ([], st)"
| "body_rules buf offset (cl # cls) st =
     (case body_rule buf offset cl st of
        Inl e \<Rightarrow> Inl e
      | Inr (cl', st') \<Rightarrow>
          if r_break st' then Inr (cl' # cls, st')
          else
            (case body_rules buf offset cls st' of
               Inl e \<Rightarrow> Inl e
             | Inr (cls', st'') \<Rightarrow> Inr (cl' # cls', st'')))"

text \<open>
  The \<^verbatim>\<open>do \<dots> while (found || null_rx)\<close> loop of the body/header pass.  Its state is
  the rule list (with the \<^verbatim>\<open>stop_matching\<close> flags), \<^verbatim>\<open>offset\<close>, \<^verbatim>\<open>i\<close> and the
  line's chunk count and chunk array; the result is \<^term>\<open>None\<close> when the loop does not
  end.  The new offset \<^verbatim>\<open>syntax[i].last\<close> is only used when the loop continues, and
  then the chunk \<open>i\<close> was written in this iteration.  Reading \<^verbatim>\<open>buf[offset]\<close> beyond
  the terminating NUL is a fault.
\<close>

partial_function (option) body_loop :: "string \<Rightarrow> ColorLine list \<Rightarrow> nat \<Rightarrow> int \<Rightarrow> int \<Rightarrow>
    Syntax list \<Rightarrow> (fault + (ColorLine list \<times> int \<times> Syntax list)) option" where
  "body_loop buf rules offset i chunks syn =
     (if length buf < offset then Some (Inl OutOfBounds)
      else if length buf = offset then Some (Inr (rules, chunks, syn))
      else
        (case body_rules buf offset rules
                \<lparr> r_found = False, r_null_rx = False, r_i = i, r_chunks = chunks,
                  r_syntax = syn, r_break = False \<rparr> of
           Inl e \<Rightarrow> Some (Inl e)
         | Inr (rules', st) \<Rightarrow>
             if r_null_rx st
             then body_loop buf rules' (offset + 1) (r_i st) (r_chunks st) (r_syntax st)
             else if r_found st
             then body_loop buf rules' (nat (s_last (r_syntax st ! nat (r_i st)))) (r_i st)
                    (r_chunks st) (r_syntax st)
             else Some (Inr (rules', r_chunks st, r_syntax st))))"

declare body_loop.simps [code]

text \<open>The line ending is hidden from the patterns: a final newline is cut off.\<close>

definition mask_newline :: "string \<Rightarrow> string" where
  "mask_newline buf = (if buf \<noteq> [] \<and> last buf = CHR 0x0A then butlast buf else buf)"

text \<open>
  The body/header pass of \<^verbatim>\<open>resolve_types\<close> for a line with chunk array \<open>syn\<close>:
  the \<^verbatim>\<open>stop_matching\<close> flags are cleared and the loop starts at offset 0 with no
  chunks.  The result holds the rule list as left behind, the chunk count and the
  chunk array.
\<close>

definition body_patterns :: "ColorLine list \<Rightarrow> string \<Rightarrow> Syntax list \<Rightarrow>
    (fault + (ColorLine list \<times> int \<times> Syntax list)) option" where
  "body_patterns head buf syn =
     body_loop (mask_newline buf) (map (\<lambda>cl. cl\<lparr> cl_stop_matching := False \<rparr>) head) 0 0 0 syn"

text \<open>
  The rule loop and the \<^verbatim>\<open>do\<close> loop of the attachment pass.  It has neither the
  \<^verbatim>\<open>stop_matching\<close> test nor the test of the chunk count against \<^verbatim>\<open>SHRT_MAX\<close>.
\<close>

definition attach_rule :: "string \<Rightarrow> nat \<Rightarrow> ColorLine \<Rightarrow> rule_st \<Rightarrow> fault + rule_st" where
  "attach_rule buf offset cl st =
     (case cl_regex cl (drop offset buf) (offset \<noteq> 0) of
        None \<Rightarrow> Inr st
      | Some pmatch \<Rightarrow>
          if snd pmatch \<noteq> fst pmatch then
            (let chunks = (if r_found st then r_chunks st else short_of (r_chunks st + 1));
                 syn = (if \<not> r_found st \<and> chunks > 1
                        then realloc_syntax (r_syntax st) (nat chunks) else r_syntax st)
             in record_match offset (cl_pair cl) pmatch st chunks syn)
          else Inr (st\<lparr> r_null_rx := True \<rparr>))"

fun attach_rules :: "string \<Rightarrow> nat \<Rightarrow> ColorLine list \<Rightarrow> rule_st \<Rightarrow> fault + rule_st" where
  "attach_rules buf offset [] st = Inr st"
| "attach_rules buf offset (cl # cls) st =
     (case attach_rule buf offset cl st of
        Inl e \<Rightarrow> Inl e
      | Inr st' \<Rightarrow> attach_rules buf offset cls st')"

partial_function (option) attach_loop :: "string \<Rightarrow> ColorLine list \<Rightarrow> nat \<Rightarrow> int \<Rightarrow> int \<Rightarrow>
    Syntax list \<Rightarrow> (fault + (int \<times> Syntax list)) option" where
  "attach_loop buf rules offset i chunks syn =
     (if length buf < offset then Some (Inl OutOfBounds)
      else if length buf = offset then Some (Inr (chunks, syn))
      else
        (case attach_rules buf offset rules
                \<lparr> r_found = False, r_null_rx = False, r_i = i, r_chunks = chunks,
                  r_syntax = syn, r_break = False \<rparr> of
           Inl e \<Rightarrow> Some (Inl e)
         | Inr st \<Rightarrow>
             if r_null_rx st
             then attach_loop buf rules (offset + 1) (r_i st) (r_chunks st) (r_syntax st)
             else if r_found st
             then attach_loop buf rules (nat (s_last (r_syntax st ! nat (r_i st)))) (r_i st)
                    (r_chunks st) (r_syntax st)
             else Some (Inr (r_chunks st, r_syntax st))))"

declare attach_loop.simps [code]

definition attachment_patterns :: "ColorLine list \<Rightarrow> string \<Rightarrow> Syntax list \<Rightarrow>
    (fault + (int \<times> Syntax list)) option" where
  "attachment_patterns ColorAttachList buf syn =
     attach_loop (mask_newline buf) ColorAttachList 0 0 0 syn"

text \<open>
  Concrete patterns for evaluation: \<^verbatim>\<open>[0-9]+\<close>, \<^verbatim>\<open>x*\<close> and \<^verbatim>\<open>.\<close> (any one
  character), each reporting the leftmost longest match.
\<close>

fun rx_plus_from :: "(char \<Rightarrow> bool) \<Rightarrow> string \<Rightarrow> nat \<Rightarrow> (nat \<times> nat) option" where
  "rx_plus_from p [] k = None"
| "rx_plus_from p (c # s) k =
     (if p c then Some (k, k + length (takeWhile p (c # s))) else rx_plus_from p s (Suc k))"

definition rx_digits :: regex_t where
  "rx_digits s notbol = rx_plus_from isdigit s 0"

definition rx_x_star :: regex_t where
  "rx_x_star s notbol = Some (0, length (takeWhile (\<lambda>c. c = CHR ''x'') s))"

definition rx_any_char :: regex_t where
  "rx_any_char s notbol = (if s = [] then None else Some (0, 1))"

definition syntax0 :: "Syntax list" where
  "syntax0 = [\<lparr> s_color = 0, s_first = -1, s_last = -1 \<rparr>]"

definition rules_overlap_ex :: "ColorLine list" where
  "rules_overlap_ex =
     [\<lparr> cl_regex = rx_digits, cl_pair = 1, cl_stop_matching = False \<rparr>,
      \<lparr> cl_regex = rx_x_star, cl_pair = 2, cl_stop_matching = False \<rparr>]"

definition rules_any_ex :: "ColorLine list" where
  "rules_any_ex = [\<lparr> cl_regex = rx_any_char, cl_pair = 1, cl_stop_matching = False \<rparr>]"

section \<open>Escape sequences\<close>

text \<open>
  \<^verbatim>\<open>is_ansi\<close>: digits and semicolons followed by \<^verbatim>\<open>m\<close>.
\<close>

fun is_ansi :: "string \<Rightarrow> bool" where
  "is_ansi [] = False"
| "is_ansi (c # s) = (if isdigit c \<or> c = CHR '';'' then is_ansi s else c = CHR ''m'')"

text \<open>
  \<^verbatim>\<open>check_marker q p\<close>: the two strings are walked together while they agree and
  no BEL is met; the result is the difference of the bytes where the walk stops, with
  0 for the terminating NUL.  Only its comparison with 0 is used.
\<close>

fun check_marker :: "string \<Rightarrow> string \<Rightarrow> int" where
  "check_marker [] [] = 0"
| "check_marker [] (c # p) = int (of_char c)"
| "check_marker (d # q) [] = - int (of_char d)"
| "check_marker (d # q) (c # p) =
     (if c = d \<and> d \<noteq> CHR 0x07 then check_marker q p
      else int (of_char c) - int (of_char d))"

text \<open>
  \<^verbatim>\<open>while (*p++ != c) ;\<close> leaves \<open>p\<close> behind the first \<open>c\<close>.  Without a \<open>c\<close>
  the loop runs beyond the end of the string.
\<close>

fun skip_past :: "char \<Rightarrow> string \<Rightarrow> fault + string" where
  "skip_past c [] = Inl OutOfBounds"
| "skip_past c (d # p) = (if d = c then Inr p else skip_past c p)"

lemma skip_past_shorter: "skip_past c s = Inr p \<Longrightarrow> length p < length s"
  by (induction s) (auto split: if_splits)

text \<open>
  The copy loop of \<^verbatim>\<open>fill_buffer\<close>, which writes \<^verbatim>\<open>fmt\<close> from \<^verbatim>\<open>buf\<close> without
  bold and underline controls.  \<open>am\<close> and \<open>pm\<close> are the global strings
  \<^verbatim>\<open>AttachmentMarker\<close> and \<^verbatim>\<open>ProtectedHeaderMarker\<close>; \<open>started\<close> is
  \<^verbatim>\<open>p > *buf\<close>; \<open>p\<close> is the rest of \<^verbatim>\<open>buf\<close> and \<open>q\<close> the part of \<^verbatim>\<open>fmt\<close>
  written so far, so that \<^verbatim>\<open>q > *fmt\<close> is \<^term>\<open>q \<noteq> []\<close>.
\<close>

function fill_buffer_fmt :: "string \<Rightarrow> string \<Rightarrow> bool \<Rightarrow> string \<Rightarrow> string \<Rightarrow> fault + string" where
  "fill_buffer_fmt am pm started [] q = Inr q"
| "fill_buffer_fmt am pm started (c # p) q =
     (if c = CHR 0x08 \<and> started then
        (case p of
           [] \<Rightarrow> fill_buffer_fmt am pm True p (q @ [c])
         | d # p' \<Rightarrow>
             if d = CHR ''_'' then fill_buffer_fmt am pm True p' q
             else if q \<noteq> [] then fill_buffer_fmt am pm True p' (butlast q @ [d])
             else fill_buffer_fmt am pm True p (q @ [c]))
      else if c = CHR 0x1B \<and> take 1 p = ''['' \<and> is_ansi (drop 1 p) then
        (case skip_past (CHR ''m'') (c # p) of
           Inl e \<Rightarrow> Inl e
         | Inr p' \<Rightarrow> fill_buffer_fmt am pm True p' q)
      else if c = CHR 0x1B \<and> take 1 p = '']'' \<and>
              (check_marker am (c # p) = 0 \<or> check_marker pm (c # p) = 0) then
        (case skip_past (CHR 0x07) (c # p) of
           Inl e \<Rightarrow> Inl e
         | Inr p' \<Rightarrow> fill_buffer_fmt am pm True p' q)
      else fill_buffer_fmt am pm True p (q @ [c]))"
  by pat_completeness auto
termination
  by (relation "measure (\<lambda>(am, pm, started, p, q). length p)")
     (auto dest: skip_past_shorter)

definition fill_buffer_copy :: "string \<Rightarrow> string \<Rightarrow> string \<Rightarrow> fault + string" where
  "fill_buffer_copy am pm buf = fill_buffer_fmt am pm False buf []"


section \<open>The line formatter\<close>

datatype AnsiFlag = ANSI_OFF | ANSI_BLINK | ANSI_BOLD | ANSI_UNDERLINE | ANSI_REVERSE | ANSI_COLOR

record AnsiAttr =
  a_attr :: "AnsiFlag set"
  a_fg :: int
  a_bg :: int
  a_pair :: int

text \<open>The curses attributes that \<^verbatim>\<open>format_line\<close> collects in \<^verbatim>\<open>special\<close>.\<close>

datatype Attr = A_BOLD | A_UNDERLINE

text \<open>
  The calls of \<^verbatim>\<open>format_line\<close> and \<^verbatim>\<open>grok_ansi\<close> into the terminal and the colour
  allocator, in the order they are made: \<^verbatim>\<open>resolve_color\<close> with its arguments
  \<^verbatim>\<open>cnt\<close>, \<^verbatim>\<open>special\<close> and \<^verbatim>\<open>*a\<close>, \<^verbatim>\<open>printw("\\%03o", c)\<close>,
  \<^verbatim>\<open>printw("^%c", c)\<close>, \<^verbatim>\<open>mutt_addwch\<close>, \<^verbatim>\<open>addch\<close> and \<^verbatim>\<open>mutt_free_color\<close>.
\<close>

datatype draw =
    ResolveColor nat "Attr set" AnsiAttr
  | PrintwOctal nat
  | PrintwCaret nat
  | AddWch nat
  | AddCh nat
  | FreeColor int int

text \<open>
  The result of \<^verbatim>\<open>mbrtowc\<close>: \<open>(size_t)(-1)\<close>, \<open>(size_t)(-2)\<close>, or the number of bytes
  of the character (0 for the NUL character) with the wide character.
\<close>

datatype mbr = MB_INVALID | MB_INCOMPLETE | MB_CHAR nat nat

text \<open>
  What \<^verbatim>\<open>format_line\<close> takes from outside \<^verbatim>\<open>pager.c\<close>: the multibyte decoder
  \<^verbatim>\<open>mbrtowc\<close> with its conversion state (\<open>e_mbs0\<close> is the zeroed state),
  \<^verbatim>\<open>IsWPrint\<close>, \<^verbatim>\<open>wcwidth\<close>, \<^verbatim>\<open>mutt_mb_is_display_corrupting_utf8\<close>, the
  globals \<^verbatim>\<open>CharsetIsUtf8\<close>, \<^verbatim>\<open>C_Markers\<close>, \<^verbatim>\<open>C_AllowAnsi\<close>,
  \<^verbatim>\<open>ReplacementChar\<close> and the two marker strings, the value of
  \<^verbatim>\<open>mutt_window_wrap_cols\<close> for the pager window (it is given 0 when
  \<^verbatim>\<open>MUTT_PAGER_NOWRAP\<close> is set and \<^verbatim>\<open>C_Wrap\<close> otherwise, so it is a function of
  that flag), \<^verbatim>\<open>pager_window->cols\<close>, and \<^verbatim>\<open>mutt_alloc_color\<close>.
\<close>

record 'mbs fmt_env =
  e_mbrtowc :: "'mbs \<Rightarrow> string \<Rightarrow> mbr \<times> 'mbs"
  e_mbs0 :: 'mbs
  e_IsWPrint :: "nat \<Rightarrow> bool"
  e_wcwidth :: "nat \<Rightarrow> int"
  e_display_corrupting :: "nat \<Rightarrow> bool"
  e_CharsetIsUtf8 :: bool
  e_C_Markers :: bool
  e_C_AllowAnsi :: bool
  e_ReplacementChar :: nat
  e_AttachmentMarker :: string
  e_ProtectedHeaderMarker :: string
  e_wrap_cols :: "bool \<Rightarrow> int"
  e_window_cols :: int
  e_alloc_color :: "int \<Rightarrow> int \<Rightarrow> int"

text \<open>
  One round of the loop \<^verbatim>\<open>while (pos < x)\<close> of \<^verbatim>\<open>grok_ansi\<close>, on the digits
  and semicolons \<open>cs\<close> between \<^verbatim>\<open>pos\<close> and \<^verbatim>\<open>x\<close>: the new attributes, the calls
  of \<^verbatim>\<open>mutt_free_color\<close>, and by how much more than 1 \<^verbatim>\<open>pos\<close> advances.
\<close>

definition free_pair :: "AnsiAttr \<Rightarrow> draw list" where
  "free_pair a = (if a_pair a \<noteq> -1 then [FreeColor (a_fg a) (a_bg a)] else [])"

definition digit_val :: "char \<Rightarrow> int" where
  "digit_val c = int (of_char c) - 48"

definition grok_code :: "string \<Rightarrow> AnsiAttr \<Rightarrow> nat \<times> AnsiAttr \<times> draw list" where
  "grok_code cs a =
     (let c = hd cs; ds = tl cs; single = (ds = [] \<or> hd ds = CHR '';'') in
      if c = CHR ''1'' \<and> single
        then (1, a\<lparr> a_attr := insert ANSI_BOLD (a_attr a) \<rparr>, [])
      else if c = CHR ''4'' \<and> single
        then (1, a\<lparr> a_attr := insert ANSI_UNDERLINE (a_attr a) \<rparr>, [])
      else if c = CHR ''5'' \<and> single
        then (1, a\<lparr> a_attr := insert ANSI_BLINK (a_attr a) \<rparr>, [])
      else if c = CHR ''7'' \<and> single
        then (1, a\<lparr> a_attr := insert ANSI_REVERSE (a_attr a) \<rparr>, [])
      else if c = CHR ''0'' \<and> single
        then (1, a\<lparr> a_attr := {ANSI_OFF}, a_pair := -1 \<rparr>, free_pair a)
      else if c = CHR ''3'' \<and> ds \<noteq> [] \<and> isdigit (hd ds)
        then (2, a\<lparr> a_pair := -1, a_attr := insert ANSI_COLOR (a_attr a),
                    a_fg := digit_val (hd ds) \<rparr>, free_pair a)
      else if c = CHR ''4'' \<and> ds \<noteq> [] \<and> isdigit (hd ds)
        then (2, a\<lparr> a_pair := -1, a_attr := insert ANSI_COLOR (a_attr a),
                    a_bg := digit_val (hd ds) \<rparr>, free_pair a)
      else (length (takeWhile (\<lambda>d. d \<noteq> CHR '';'') cs), a, []))"

fun grok_codes :: "string \<Rightarrow> AnsiAttr \<Rightarrow> draw list \<Rightarrow> AnsiAttr \<times> draw list" where
  "grok_codes [] a out = (a, out)"
| "grok_codes (c # cs) a out =
     (case grok_code (c # cs) a of
        (n, a', calls) \<Rightarrow> grok_codes (drop n cs) a' (out @ calls))"

text \<open>
  \<^verbatim>\<open>grok_ansi buf pos a\<close>: \<open>x\<close> is the index of the first byte at or after
  \<^verbatim>\<open>pos\<close> that is neither a digit nor a semicolon, and is returned.  The attributes
  change only when \<^verbatim>\<open>C_AllowAnsi\<close> is set, \<^verbatim>\<open>a\<close> is not null and that byte is \<^verbatim>\<open>m\<close>.
  \<open>out\<close> collects the calls made.
\<close>

definition grok_ansi :: "bool \<Rightarrow> string \<Rightarrow> nat \<Rightarrow> AnsiAttr option \<Rightarrow> draw list \<Rightarrow>
    nat \<times> AnsiAttr option \<times> draw list" where
  "grok_ansi C_AllowAnsi buf pos pa out =
     (let cs = takeWhile (\<lambda>c. isdigit c \<or> c = CHR '';'') (drop pos buf);
          x = pos + length cs
      in case pa of
           None \<Rightarrow> (x, None, out)
         | Some a \<Rightarrow>
             if C_AllowAnsi \<and> byte_at buf x = CHR ''m'' then
               (case grok_codes cs
                       (if cs = [] then a\<lparr> a_attr := {ANSI_OFF}, a_pair := -1 \<rparr> else a)
                       (if cs = [] then out @ free_pair a else out) of
                  (a', out') \<Rightarrow> (x, Some a', out'))
             else (x, pa, out))"

lemma grok_ansi_fst: "fst (grok_ansi allow buf pos pa out) \<ge> pos"
  by (auto simp: grok_ansi_def Let_def split: option.splits prod.splits)

text \<open>
  The first \<^verbatim>\<open>while\<close> loop in the body of \<^verbatim>\<open>format_line\<close>: ANSI sequences at
  \<^verbatim>\<open>ch\<close> are consumed by \<^verbatim>\<open>grok_ansi\<close>.
\<close>

function fl_skip_ansi :: "bool \<Rightarrow> string \<Rightarrow> nat \<Rightarrow> nat \<Rightarrow> AnsiAttr option \<Rightarrow> draw list \<Rightarrow>
    nat \<times> AnsiAttr option \<times> draw list" where
  "fl_skip_ansi allow buf cnt ch pa out =
     (if ch + 2 \<le> cnt \<and> byte_at buf ch = CHR 0x1B \<and> byte_at buf (ch + 1) = CHR ''['' \<and>
         is_ansi (drop (ch + 2) buf)
      then fl_skip_ansi allow buf cnt (fst (grok_ansi allow buf (ch + 2) pa out) + 1)
             (fst (snd (grok_ansi allow buf (ch + 2) pa out)))
             (snd (snd (grok_ansi allow buf (ch + 2) pa out)))
      else (ch, pa, out))"
  by pat_completeness auto
termination
proof (relation "measure (\<lambda>(allow, buf, cnt, ch, pa, out). cnt - ch)", goal_cases)
  case 1
  show ?case by simp
next
  case (2 allow buf cnt ch pa out)
  then show ?case
    using grok_ansi_fst [of "ch + 2" allow buf pa out] by auto
qed

declare fl_skip_ansi.simps [simp del]

text \<open>
  The second \<^verbatim>\<open>while\<close> loop: a marker sequence at \<^verbatim>\<open>ch\<close> is skipped up to its BEL,
  or up to \<^verbatim>\<open>cnt\<close>.
\<close>

function skip_bel :: "string \<Rightarrow> nat \<Rightarrow> nat \<Rightarrow> nat" where
  "skip_bel buf cnt ch =
     (if byte_at buf ch = CHR 0x07 then ch + 1
      else if ch + 1 \<ge> cnt then ch + 1
      else skip_bel buf cnt (ch + 1))"
  by pat_completeness auto
termination
  by (relation "measure (\<lambda>(buf, cnt, ch). cnt - ch)") auto

declare skip_bel.simps [simp del]

lemma skip_bel_gt: "ch < skip_bel buf cnt ch"
proof (induction buf cnt ch rule: skip_bel.induct)
  case (1 buf cnt ch)
  show ?case
  proof (cases "byte_at buf ch = CHR 0x07 \<or> ch + 1 \<ge> cnt")
    case True
    then show ?thesis by (subst skip_bel.simps) auto
  next
    case False
    then have "ch + 1 < skip_bel buf cnt (ch + 1)" using "1.IH" by simp
    moreover have "skip_bel buf cnt ch = skip_bel buf cnt (ch + 1)"
      using False by (subst skip_bel.simps) simp
    ultimately show ?thesis by simp
  qed
qed

function fl_skip_marker :: "string \<Rightarrow> string \<Rightarrow> string \<Rightarrow> nat \<Rightarrow> nat \<Rightarrow> nat" where
  "fl_skip_marker am pm buf cnt ch =
     (if ch + 2 \<le> cnt \<and> byte_at buf ch = CHR 0x1B \<and> byte_at buf (ch + 1) = CHR '']'' \<and>
         (check_marker am (drop ch buf) = 0 \<or> check_marker pm (drop ch buf) = 0)
      then fl_skip_marker am pm buf cnt (skip_bel buf cnt ch)
      else ch)"
  by pat_completeness auto
termination
proof (relation "measure (\<lambda>(am, pm, buf, cnt, ch). cnt - ch)", goal_cases)
  case 1
  show ?case by simp
next
  case (2 am pm buf cnt ch)
  then show ?case
    using skip_bel_gt [of ch buf cnt] by auto
qed

declare fl_skip_marker.simps [simp del]

text \<open>
  The backspace loop.  \<open>wc\<close>, \<open>special\<close>, \<open>ch\<close>, \<open>k\<close> and the conversion state are
  the variables it changes; \<^verbatim>\<open>mbrtowc\<close> is given the bytes from its position up to
  \<^verbatim>\<open>cnt\<close>.  The result is \<^term>\<open>None\<close> when the loop does not end.
\<close>

definition decode :: "'mbs fmt_env \<Rightarrow> 'mbs \<Rightarrow> string \<Rightarrow> nat \<Rightarrow> nat \<Rightarrow> mbr \<times> 'mbs" where
  "decode env mbs buf cnt pos = e_mbrtowc env mbs (take (cnt - pos) (drop pos buf))"

definition overstrike :: "nat \<Rightarrow> nat \<Rightarrow> Attr set \<Rightarrow> nat \<times> Attr set" where
  "overstrike wc wc1 special =
     (if wc = wc1
        then (wc, insert (if wc = 95 \<and> A_UNDERLINE \<in> special then A_UNDERLINE else A_BOLD) special)
      else if wc = 95 \<or> wc1 = 95
        then (if wc1 = 95 then wc else wc1, insert A_UNDERLINE special)
      else (wc1, special))"

partial_function (option) fl_backspace :: "'mbs fmt_env \<Rightarrow> string \<Rightarrow> nat \<Rightarrow> nat \<Rightarrow> Attr set \<Rightarrow>
    nat \<Rightarrow> nat \<Rightarrow> 'mbs \<Rightarrow> (nat \<times> Attr set \<times> nat \<times> nat \<times> 'mbs) option" where
  "fl_backspace env buf cnt wc special ch k mbs =
     (case fst (decode env mbs buf cnt (ch + k)) of
        MB_CHAR k1 wc1 \<Rightarrow>
          if k1 > 0 \<and> wc1 = 8 then
            (case fst (decode env (snd (decode env mbs buf cnt (ch + k))) buf cnt (ch + k + k1)) of
               MB_CHAR k2 wc2 \<Rightarrow>
                 if k2 = 0 \<or> \<not> e_IsWPrint env wc2 then Some (wc, special, ch, k, mbs)
                 else fl_backspace env buf cnt (fst (overstrike wc wc2 special))
                        (snd (overstrike wc wc2 special)) (ch + k + k1) k2
                        (snd (decode env (snd (decode env mbs buf cnt (ch + k))) buf cnt (ch + k + k1)))
             | _ \<Rightarrow> Some (wc, special, ch, k, mbs))
          else Some (wc, special, ch, k, mbs)
      | _ \<Rightarrow> Some (wc, special, ch, k, mbs))"

declare fl_backspace.simps [code]

text \<open>
  What \<^verbatim>\<open>resolve_color\<close> does to \<^verbatim>\<open>*a\<close> (with \<^verbatim>\<open>HAVE_COLOR\<close>): a colour pair is
  allocated on first use, and the attribute \<^verbatim>\<open>ANSI_OFF\<close> alone is cleared.
\<close>

definition resolve_color_ansi :: "(int \<Rightarrow> int \<Rightarrow> int) \<Rightarrow> Attr set \<Rightarrow> AnsiAttr \<Rightarrow> AnsiAttr" where
  "resolve_color_ansi alloc special a =
     (if special \<noteq> {} \<or> a_attr a \<noteq> {} then
        (let a1 = (if ANSI_COLOR \<in> a_attr a \<and> a_pair a = -1
                   then a\<lparr> a_pair := alloc (a_fg a) (a_bg a) \<rparr> else a)
         in if A_UNDERLINE \<in> special \<or> ANSI_UNDERLINE \<in> a_attr a1 then a1
            else if ANSI_REVERSE \<in> a_attr a1 then a1
            else if ANSI_BLINK \<in> a_attr a1 then a1
            else if a_attr a1 = {ANSI_OFF} then a1\<lparr> a_attr := {} \<rparr>
            else a1)
      else a)"

text \<open>
  The local variables of \<^verbatim>\<open>format_line\<close>.  \<open>f_last_special\<close> is \<^term>\<open>None\<close> for its
  initial value \<open>-1\<close>; \<open>f_pa\<close> is \<^term>\<open>None\<close> for a null \<^verbatim>\<open>pa\<close> (the measuring
  pass); \<open>f_out\<close> holds the calls made so far.
\<close>

record 'mbs fl_state =
  f_ch :: nat
  f_vch :: nat
  f_col :: int
  f_space :: int
  f_special :: "Attr set"
  f_last_special :: "Attr set option"
  f_mbstate :: 'mbs
  f_pa :: "AnsiAttr option"
  f_out :: "draw list"

text \<open>The update \<^verbatim>\<open>ch += k, vch += k\<close> of the \<^verbatim>\<open>for\<close> loop.\<close>

definition advance :: "'mbs fl_state \<Rightarrow> nat \<Rightarrow> 'mbs fl_state" where
  "advance st k = st\<lparr> f_ch := f_ch st + k, f_vch := f_vch st + k \<rparr>"

definition emit :: "'mbs fl_state \<Rightarrow> draw list \<Rightarrow> 'mbs fl_state" where
  "emit st calls = (if f_pa st = None then st else st\<lparr> f_out := f_out st @ calls \<rparr>)"

text \<open>
  The branch for a byte sequence that \<^verbatim>\<open>mbrtowc\<close> rejects.  Each of the following
  functions returns whether the loop is left by \<^verbatim>\<open>break\<close>, and the new state.
\<close>

definition fl_bad :: "int \<Rightarrow> string \<Rightarrow> 'mbs fl_state \<Rightarrow> bool \<times> 'mbs fl_state" where
  "fl_bad wrap_cols buf st =
     (if f_col st + 4 > wrap_cols then (True, st)
      else (False, advance (emit (st\<lparr> f_col := f_col st + 4 \<rparr>)
                              [PrintwOctal (of_char (byte_at buf (f_ch st)))]) 1))"

text \<open>The call of \<^verbatim>\<open>resolve_color\<close>, made only when rendering.\<close>

definition fl_resolve :: "'mbs fmt_env \<Rightarrow> PagerFlag set \<Rightarrow> 'mbs fl_state \<Rightarrow> 'mbs fl_state" where
  "fl_resolve env flags st =
     (case f_pa st of
        None \<Rightarrow> st
      | Some a \<Rightarrow>
          if flags \<inter> {MUTT_SHOWCOLOR, MUTT_SEARCH, MUTT_PAGER_MARKER} \<noteq> {} \<or>
             f_special st \<noteq> {} \<or> f_last_special st \<noteq> Some {} \<or> a_attr a \<noteq> {}
          then st\<lparr> f_out := f_out st @ [ResolveColor (f_vch st) (f_special st) a],
                   f_pa := Some (resolve_color_ansi (e_alloc_color env) (f_special st) a),
                   f_last_special := Some (f_special st) \<rparr>
          else st)"

text \<open>
  The final chain of \<^verbatim>\<open>format_line\<close>'s loop body, for the wide character \<open>wc\<close> of
  \<open>k\<close> bytes: printable characters, newline, tab, control characters, other
  characters below \<open>0x100\<close>, and the rest, shown as \<^verbatim>\<open>ReplacementChar\<close>.
\<close>

definition fl_emit :: "'mbs fmt_env \<Rightarrow> int \<Rightarrow> 'mbs fl_state \<Rightarrow> nat \<Rightarrow> nat \<Rightarrow> bool \<times> 'mbs fl_state" where
  "fl_emit env wrap_cols st wc k =
     (if e_IsWPrint env wc \<or> (e_CharsetIsUtf8 env \<and> (wc = 0xA0 \<or> wc = 0x202F)) then
        (let st1 = (if wc = 32 then st\<lparr> f_space := int (f_ch st) \<rparr> else st);
             t = e_wcwidth env wc
         in if f_col st + t > wrap_cols then (True, st1)
            else (False, advance (emit (st1\<lparr> f_col := f_col st + t \<rparr>) [AddWch wc]) k))
      else if wc = 10 then (True, st)
      else if wc = 9 then
        (let st1 = st\<lparr> f_space := int (f_ch st) \<rparr>;
             t = (f_col st div 8) * 8 + 8
         in if t > wrap_cols then (True, st1)
            else (False, advance (emit (st1\<lparr> f_col := t \<rparr>)
                                    (replicate (nat (t - f_col st)) (AddCh 32))) k))
      else if wc < 0x20 \<or> wc = 0x7F then
        (if f_col st + 2 > wrap_cols then (True, st)
         else (False, advance (emit (st\<lparr> f_col := f_col st + 2 \<rparr>)
                                 [PrintwCaret ((64 + wc) mod 128)]) k))
      else if wc < 0x100 then
        (if f_col st + 4 > wrap_cols then (True, st)
         else (False, advance (emit (st\<lparr> f_col := f_col st + 4 \<rparr>) [PrintwOctal wc]) k))
      else
        (if f_col st + 1 > wrap_cols then (True, st)
         else (False, advance (emit (st\<lparr> f_col := f_col st + int k \<rparr>)
                                 [AddCh (e_ReplacementChar env)]) k)))"

text \<open>
  One round of the \<^verbatim>\<open>for\<close> loop of \<^verbatim>\<open>format_line\<close>, entered with \<open>ch < cnt\<close>.
  The result is \<^term>\<open>None\<close> when the backspace loop does not end.
\<close>

definition fl_step :: "'mbs fmt_env \<Rightarrow> PagerFlag set \<Rightarrow> string \<Rightarrow> nat \<Rightarrow> int \<Rightarrow> 'mbs fl_state \<Rightarrow>
    (bool \<times> 'mbs fl_state) option" where
  "fl_step env flags buf cnt wrap_cols st =
     (case fl_skip_ansi (e_C_AllowAnsi env) buf cnt (f_ch st) (f_pa st) (f_out st) of
        (ch1, pa1, out1) \<Rightarrow>
          (let ch2 = fl_skip_marker (e_AttachmentMarker env) (e_ProtectedHeaderMarker env) buf cnt ch1;
               st1 = st\<lparr> f_ch := ch2, f_pa := pa1, f_out := out1 \<rparr>
           in if ch2 \<ge> cnt then Some (True, st1)
              else
                (case decode env (f_mbstate st) buf cnt ch2 of
                   (MB_INVALID, mbs) \<Rightarrow>
                     Some (fl_bad wrap_cols buf (st1\<lparr> f_mbstate := e_mbs0 env \<rparr>))
                 | (MB_INCOMPLETE, mbs) \<Rightarrow>
                     Some (fl_bad wrap_cols buf (st1\<lparr> f_mbstate := mbs \<rparr>))
                 | (MB_CHAR k0 wc, mbs) \<Rightarrow>
                     (let k = (if k0 = 0 then 1 else k0);
                          st2 = st1\<lparr> f_mbstate := mbs \<rparr>
                      in if e_CharsetIsUtf8 env \<and>
                            (wc = 0x200B \<or> wc = 0xFEFF \<or> e_display_corrupting env wc)
                         then Some (False, advance st2 k)
                         else
                           (case (if e_IsWPrint env wc
                                  then fl_backspace env buf cnt wc {} ch2 k mbs
                                  else Some (wc, {}, ch2, k, mbs)) of
                              None \<Rightarrow> None
                            | Some (wc', special, ch3, k', mbs') \<Rightarrow>
                                Some (fl_emit env wrap_cols
                                        (fl_resolve env flags
                                           (st2\<lparr> f_special := special, f_ch := ch3,
                                                  f_mbstate := mbs' \<rparr>))
                                        wc' k'))))))"

partial_function (option) fl_loop :: "'mbs fmt_env \<Rightarrow> PagerFlag set \<Rightarrow> string \<Rightarrow> nat \<Rightarrow> int \<Rightarrow>
    'mbs fl_state \<Rightarrow> 'mbs fl_state option" where
  "fl_loop env flags buf cnt wrap_cols st =
     (if f_ch st \<ge> cnt then Some st
      else
        (case fl_step env flags buf cnt wrap_cols st of
           None \<Rightarrow> None
         | Some r \<Rightarrow> if fst r then Some (snd r) else fl_loop env flags buf cnt wrap_cols (snd r)))"

declare fl_loop.simps [code]

text \<open>
  \<^verbatim>\<open>format_line\<close>.  The final state holds the return value (\<open>f_ch\<close>) and the outputs
  \<^verbatim>\<open>*pspace\<close>, \<^verbatim>\<open>*pvch\<close>, \<^verbatim>\<open>*pcol\<close> and \<^verbatim>\<open>*pspecial\<close>.
\<close>

definition format_line :: "'mbs fmt_env \<Rightarrow> Line list \<Rightarrow> nat \<Rightarrow> string \<Rightarrow> PagerFlag set \<Rightarrow>
    AnsiAttr option \<Rightarrow> nat \<Rightarrow> 'mbs fl_state option" where
  "format_line env line_info n buf flags pa cnt =
     fl_loop env flags buf cnt
       (if check_marker (e_AttachmentMarker env) buf = 0 then e_window_cols env
        else e_wrap_cols env (MUTT_PAGER_NOWRAP \<in> flags))
       \<lparr> f_ch = 0, f_vch = 0,
         f_col = (if e_C_Markers env then l_continuation (line_info ! n) else 0),
         f_space = -1, f_special = {}, f_last_special = None, f_mbstate = e_mbs0 env,
         f_pa = pa, f_out = [] \<rparr>"

text \<open>
  An environment for evaluation: a UTF-8 locale restricted to sequences of up to three
  bytes, in which the characters \<open>0x20 \<dots> 0x7E\<close> and \<open>0xA0 \<dots> 0x377\<close> are printable
  and one column wide, on a window of 80 columns.
\<close>

definition cont_byte :: "char \<Rightarrow> bool" where
  "cont_byte c = (128 \<le> (of_char c :: nat) \<and> (of_char c :: nat) < 192)"

definition mbrtowc_utf8 :: "unit \<Rightarrow> string \<Rightarrow> mbr \<times> unit" where
  "mbrtowc_utf8 mbs s =
     (case s of
        [] \<Rightarrow> (MB_INCOMPLETE, ())
      | b # bs \<Rightarrow>
          (let v = (of_char b :: nat) in
           if v = 0 then (MB_CHAR 0 0, ())
           else if v < 128 then (MB_CHAR 1 v, ())
           else if 194 \<le> v \<and> v < 224 then
             (case bs of
                [] \<Rightarrow> (MB_INCOMPLETE, ())
              | b1 # _ \<Rightarrow>
                  if cont_byte b1 then (MB_CHAR 2 ((v - 192) * 64 + (of_char b1 - 128)), ())
                  else (MB_INVALID, ()))
           else if 224 \<le> v \<and> v < 240 then
             (case bs of
                b1 # b2 # _ \<Rightarrow>
                  if cont_byte b1 \<and> cont_byte b2
                  then (MB_CHAR 3 ((v - 224) * 4096 + (of_char b1 - 128) * 64 + (of_char b2 - 128)), ())
                  else (MB_INVALID, ())
              | _ \<Rightarrow> (MB_INCOMPLETE, ()))
           else (MB_INVALID, ())))"

definition ansi0 :: AnsiAttr where
  "ansi0 = \<lparr> a_attr = {}, a_fg = 0, a_bg = 0, a_pair = -1 \<rparr>"

definition env_ex :: "unit fmt_env" where
  "env_ex =
     \<lparr> e_mbrtowc = mbrtowc_utf8, e_mbs0 = (),
       e_IsWPrint = (\<lambda>wc. (32 \<le> wc \<and> wc < 127) \<or> (160 \<le> wc \<and> wc < 888)),
       e_wcwidth = (\<lambda>wc. 1),
       e_display_corrupting = (\<lambda>wc. False),
       e_CharsetIsUtf8 = True, e_C_Markers = True, e_C_AllowAnsi = True,
       e_ReplacementChar = 63,
       e_AttachmentMarker = [CHR 0x1B, CHR '']'', CHR ''9'', CHR '';'', CHR ''1'', CHR 0x07],
       e_ProtectedHeaderMarker = [CHR 0x1B, CHR '']'', CHR ''8'', CHR '';'', CHR ''1'', CHR 0x07],
       e_wrap_cols = (\<lambda>nowrap. 80), e_window_cols = 80,
       e_alloc_color = (\<lambda>fg bg. 8 * fg + bg) \<rparr>"

section \<open>Quote classes\<close>

text \<open>
  \<^verbatim>\<open>struct QClass\<close> lives on the heap and is reached through pointers from several
  places, so the quote classes are kept in an explicit store: the list of all nodes
  allocated so far.  A pointer is \<^term>\<open>None\<close> (null) or the index of a node in the
  store.  \<^verbatim>\<open>mutt_mem_calloc\<close> appends a zeroed node.
\<close>

record QClass =
  q_length :: nat
  q_index :: int
  q_color :: int
  q_prefix :: string
  q_next :: "nat option"
  q_prev :: "nat option"
  q_down :: "nat option"
  q_up :: "nat option"

type_synonym qheap = "QClass list"

definition qclass0 :: QClass where
  "qclass0 = \<lparr> q_length = 0, q_index = 0, q_color = 0, q_prefix = [],
               q_next = None, q_prev = None, q_down = None, q_up = None \<rparr>"

text \<open>
  Reading and writing through a pointer.  The result is \<^term>\<open>None\<close> when the pointer
  is not the address of a node: the C code would dereference a null or wild pointer.
  In all functions of this section, \<^term>\<open>None\<close> stands for a call that does not
  return: such a dereference, or a loop that does not end.
\<close>

definition qread :: "qheap \<Rightarrow> nat \<Rightarrow> QClass option" where
  "qread h a = (if a < length h then Some (h ! a) else None)"

definition qwrite :: "qheap \<Rightarrow> nat \<Rightarrow> (QClass \<Rightarrow> QClass) \<Rightarrow> qheap option" where
  "qwrite h a f = (if a < length h then Some (h[a := f (h ! a)]) else None)"

text \<open>
  The state that \<^verbatim>\<open>classify_quote\<close> works on: the store, \<^verbatim>\<open>*quote_list\<close>,
  \<^verbatim>\<open>*q_level\<close> and \<^verbatim>\<open>*force_redraw\<close>.
\<close>

record quote_state =
  qs_heap :: qheap
  qs_quote_list :: "nat option"
  qs_q_level :: int
  qs_force_redraw :: bool

text \<open>
  The palette: the array \<^verbatim>\<open>ColorQuote\<close> and its used size \<^verbatim>\<open>ColorQuoteUsed\<close>
  (globals of \<^verbatim>\<open>color.c\<close>).  \<^verbatim>\<open>%\<close> is C's remainder, which truncates.
\<close>

definition c_rem :: "int \<Rightarrow> int \<Rightarrow> int" where
  "c_rem a b = sgn a * (\<bar>a\<bar> mod \<bar>b\<bar>)"

definition quote_color :: "(int \<Rightarrow> int) \<Rightarrow> int \<Rightarrow> int \<Rightarrow> int" where
  "quote_color ColorQuote ColorQuoteUsed idx = ColorQuote (c_rem idx ColorQuoteUsed)"

text \<open>\<^verbatim>\<open>new_class_color\<close>.\<close>

definition new_class_color :: "(int \<Rightarrow> int) \<Rightarrow> int \<Rightarrow> nat \<Rightarrow> quote_state \<Rightarrow> quote_state option" where
  "new_class_color ColorQuote ColorQuoteUsed class st =
     do {
       h \<leftarrow> qwrite (qs_heap st) class
              (\<lambda>n. n\<lparr> q_index := qs_q_level st,
                       q_color := quote_color ColorQuote ColorQuoteUsed (qs_q_level st) \<rparr>);
       Some (st\<lparr> qs_heap := h, qs_q_level := qs_q_level st + 1 \<rparr>)
     }"

text \<open>
  The inner loop of \<^verbatim>\<open>shift_class_colors\<close> that climbs from a node without a next
  sibling: \<^verbatim>\<open>while (!q_list->next) { q_list = q_list->up; if (!q_list) break; }\<close>.
\<close>

partial_function (option) shift_climb :: "qheap \<Rightarrow> nat \<Rightarrow> nat option option" where
  "shift_climb h a =
     do {
       n \<leftarrow> qread h a;
       if q_next n \<noteq> None then Some (Some a)
       else (case q_up n of None \<Rightarrow> Some None | Some u \<Rightarrow> shift_climb h u)
     }"

declare shift_climb.simps [code]

text \<open>
  The loop \<^verbatim>\<open>while (q_list)\<close> of \<^verbatim>\<open>shift_class_colors\<close>: the node is renumbered
  when its index is at least \<^verbatim>\<open>index\<close>, and the walk goes down, else to the next
  sibling, else up to the nearest ancestor with a next sibling and on to that sibling.
\<close>

partial_function (option) shift_loop :: "(int \<Rightarrow> int) \<Rightarrow> int \<Rightarrow> int \<Rightarrow> qheap \<Rightarrow> nat option \<Rightarrow>
    qheap option" where
  "shift_loop ColorQuote ColorQuoteUsed idx h q_list =
     (case q_list of
        None \<Rightarrow> Some h
      | Some a \<Rightarrow>
          do {
            n \<leftarrow> qread h a;
            h1 \<leftarrow> (if q_index n \<ge> idx
                   then qwrite h a
                          (\<lambda>n. n\<lparr> q_index := q_index n + 1,
                                   q_color := quote_color ColorQuote ColorQuoteUsed (q_index n + 1) \<rparr>)
                   else Some h);
            if q_down n \<noteq> None then shift_loop ColorQuote ColorQuoteUsed idx h1 (q_down n)
            else if q_next n \<noteq> None then shift_loop ColorQuote ColorQuoteUsed idx h1 (q_next n)
            else
              do {
                c \<leftarrow> shift_climb h1 a;
                (case c of
                   None \<Rightarrow> Some h1
                 | Some b \<Rightarrow>
                     do {
                       m \<leftarrow> qread h1 b;
                       shift_loop ColorQuote ColorQuoteUsed idx h1 (q_next m)
                     })
              }
          })"

declare shift_loop.simps [code]

text \<open>\<^verbatim>\<open>shift_class_colors\<close>, called with \<^verbatim>\<open>*quote_list\<close> as the list.\<close>

definition shift_class_colors :: "(int \<Rightarrow> int) \<Rightarrow> int \<Rightarrow> nat \<Rightarrow> int \<Rightarrow> quote_state \<Rightarrow>
    quote_state option" where
  "shift_class_colors ColorQuote ColorQuoteUsed new_class idx st =
     do {
       h0 \<leftarrow> qwrite (qs_heap st) new_class (\<lambda>n. n\<lparr> q_index := -1 \<rparr>);
       h1 \<leftarrow> shift_loop ColorQuote ColorQuoteUsed idx h0 (qs_quote_list st);
       h2 \<leftarrow> qwrite h1 new_class
               (\<lambda>n. n\<lparr> q_index := idx, q_color := quote_color ColorQuote ColorQuoteUsed idx \<rparr>);
       Some (st\<lparr> qs_heap := h2, qs_q_level := qs_q_level st + 1 \<rparr>)
     }"

text \<open>
  Allocation of a node for the prefix \<open>qptr\<close>: \<^verbatim>\<open>calloc\<close>, a copy of the prefix, and
  its length.  \<^verbatim>\<open>classify_quote\<close> is given the prefix as the string of its first
  \<^verbatim>\<open>length\<close> bytes, the only bytes of \<^verbatim>\<open>qptr\<close> it reads.
\<close>

definition new_node :: "qheap \<Rightarrow> string \<Rightarrow> nat \<times> qheap" where
  "new_node h qptr = (length h, h @ [qclass0\<lparr> q_prefix := qptr, q_length := length qptr \<rparr>])"

text \<open>
  The block ``add a node above \<^verbatim>\<open>q_list\<close>'', which both loops of
  \<^verbatim>\<open>classify_quote\<close> contain: a new node \<^verbatim>\<open>tmp\<close> takes the place of \<^verbatim>\<open>q_list\<close>
  among its siblings and \<^verbatim>\<open>q_list\<close> becomes its only child.  In the top level loop
  (\<open>nested\<close> false) the root pointer follows when \<^verbatim>\<open>q_list\<close> was the root; in the
  inner loop (\<open>nested\<close> true) \<^verbatim>\<open>tmp\<close> gets the parent of \<^verbatim>\<open>q_list\<close>, whose \<^verbatim>\<open>down\<close>
  pointer follows when it pointed to \<^verbatim>\<open>q_list\<close>.  The result is \<^verbatim>\<open>tmp\<close> with the new
  state.
\<close>

definition insert_above :: "bool \<Rightarrow> string \<Rightarrow> nat \<Rightarrow> quote_state \<Rightarrow> (nat \<times> quote_state) option" where
  "insert_above nested qptr q_list st =
     do {
       ql \<leftarrow> qread (qs_heap st) q_list;
       let (tmp, h0) = new_node (qs_heap st) qptr;
       h1 \<leftarrow> (case q_next ql of
                None \<Rightarrow> Some h0
              | Some nx \<Rightarrow>
                  do {
                    h \<leftarrow> qwrite h0 tmp (\<lambda>n. n\<lparr> q_next := Some nx \<rparr>);
                    qwrite h nx (\<lambda>n. n\<lparr> q_prev := Some tmp \<rparr>)
                  });
       h2 \<leftarrow> (case q_prev ql of
                None \<Rightarrow> Some h1
              | Some pv \<Rightarrow>
                  do {
                    h \<leftarrow> qwrite h1 tmp (\<lambda>n. n\<lparr> q_prev := Some pv \<rparr>);
                    qwrite h pv (\<lambda>n. n\<lparr> q_next := Some tmp \<rparr>)
                  });
       h3 \<leftarrow> qwrite h2 tmp (\<lambda>n. n\<lparr> q_down := Some q_list \<rparr>);
       h4 \<leftarrow> (if nested then qwrite h3 tmp (\<lambda>n. n\<lparr> q_up := q_up ql \<rparr>) else Some h3);
       h5 \<leftarrow> qwrite h4 q_list (\<lambda>n. n\<lparr> q_up := Some tmp \<rparr>);
       h6 \<leftarrow> (if nested then
                (case q_up ql of
                   None \<Rightarrow> None
                 | Some u \<Rightarrow>
                     do {
                       un \<leftarrow> qread h5 u;
                       if q_down un = Some q_list
                       then qwrite h5 u (\<lambda>n. n\<lparr> q_down := Some tmp \<rparr>)
                       else Some h5
                     })
              else Some h5);
       h7 \<leftarrow> qwrite h6 q_list (\<lambda>n. n\<lparr> q_next := None, q_prev := None \<rparr>);
       Some (tmp,
             st\<lparr> qs_heap := h7,
                 qs_quote_list :=
                   (if \<not> nested \<and> qs_quote_list st = Some q_list then Some tmp
                    else qs_quote_list st) \<rparr>)
     }"

text \<open>The loop \<^verbatim>\<open>while (ptr->next) ptr = ptr->next;\<close>.\<close>

partial_function (option) last_sibling :: "qheap \<Rightarrow> nat \<Rightarrow> nat option" where
  "last_sibling h ptr =
     do {
       n \<leftarrow> qread h ptr;
       (case q_next n of None \<Rightarrow> Some ptr | Some nx \<Rightarrow> last_sibling h nx)
     }"

declare last_sibling.simps [code]

text \<open>
  The block ``found another branch for which \<^verbatim>\<open>tmp\<close> is a shorter prefix'', the same
  in both loops: \<^verbatim>\<open>q_list\<close> is unlinked from its siblings and linked as the last child
  of \<^verbatim>\<open>tmp\<close>.
\<close>

definition move_below :: "nat \<Rightarrow> nat \<Rightarrow> qheap \<Rightarrow> qheap option" where
  "move_below tmp q_list h =
     do {
       ql \<leftarrow> qread h q_list;
       h1 \<leftarrow> (case q_next ql of
                None \<Rightarrow> Some h
              | Some nx \<Rightarrow> qwrite h nx (\<lambda>n. n\<lparr> q_prev := q_prev ql \<rparr>));
       h2 \<leftarrow> (case q_prev ql of
                None \<Rightarrow> Some h1
              | Some pv \<Rightarrow> qwrite h1 pv (\<lambda>n. n\<lparr> q_next := q_next ql \<rparr>));
       t \<leftarrow> qread h2 tmp;
       first \<leftarrow> q_down t;
       ptr \<leftarrow> last_sibling h2 first;
       h3 \<leftarrow> qwrite h2 ptr (\<lambda>n. n\<lparr> q_next := Some q_list \<rparr>);
       qwrite h3 q_list (\<lambda>n. n\<lparr> q_next := None, q_prev := Some ptr, q_up := Some tmp \<rparr>)
     }"

text \<open>
  \<^verbatim>\<open>mutt_str_strncmp(a, b, n) == 0\<close> on strings without NUL bytes: the first \<open>n\<close>
  bytes agree (a string that ends earlier must end where the other does).
\<close>

definition strncmp_eq :: "string \<Rightarrow> string \<Rightarrow> nat \<Rightarrow> bool" where
  "strncmp_eq a b n = (take n a = take n b)"

text \<open>
  The end of the inner loop of \<^verbatim>\<open>classify_quote\<close> when no class was found: the
  prefix becomes a new first child of \<^verbatim>\<open>ptr\<close> with a fresh colour.
\<close>

definition add_child :: "(int \<Rightarrow> int) \<Rightarrow> int \<Rightarrow> string \<Rightarrow> nat \<Rightarrow> quote_state \<Rightarrow>
    (nat \<times> quote_state) option" where
  "add_child ColorQuote ColorQuoteUsed qptr ptr st =
     do {
       let (tmp, h0) = new_node (qs_heap st) qptr;
       p \<leftarrow> qread h0 ptr;
       h1 \<leftarrow> (case q_down p of
                None \<Rightarrow> Some h0
              | Some d \<Rightarrow>
                  do {
                    h \<leftarrow> qwrite h0 tmp (\<lambda>n. n\<lparr> q_next := Some d \<rparr>);
                    qwrite h d (\<lambda>n. n\<lparr> q_prev := Some tmp \<rparr>)
                  });
       h2 \<leftarrow> qwrite h1 ptr (\<lambda>n. n\<lparr> q_down := Some tmp \<rparr>);
       h3 \<leftarrow> qwrite h2 tmp (\<lambda>n. n\<lparr> q_up := Some ptr \<rparr>);
       st' \<leftarrow> new_class_color ColorQuote ColorQuoteUsed tmp (st\<lparr> qs_heap := h3 \<rparr>);
       Some (tmp, st')
     }"

text \<open>
  The end of both loops when a class \<^verbatim>\<open>tmp\<close> was inserted above existing nodes: the
  colours are shifted when \<^verbatim>\<open>index\<close> was set.
\<close>

definition finish_shift :: "(int \<Rightarrow> int) \<Rightarrow> int \<Rightarrow> nat \<Rightarrow> int \<Rightarrow> quote_state \<Rightarrow>
    (nat \<times> quote_state) option" where
  "finish_shift ColorQuote ColorQuoteUsed tmp idx st =
     do {
       st' \<leftarrow> (if idx \<noteq> -1 then shift_class_colors ColorQuote ColorQuoteUsed tmp idx st
               else Some st);
       Some (tmp, st')
     }"

text \<open>
  The inner loop of \<^verbatim>\<open>classify_quote\<close> (``case 2: try subclassing the current top
  level node''), with what follows it.  \<open>q_list\<close> walks the children of \<open>ptr\<close>;
  \<open>offset\<close> is the length of the prefix of \<open>ptr\<close>; \<open>tmp\<close> is the node inserted in
  this call, if any (\<^verbatim>\<open>class\<close> is assigned together with \<^verbatim>\<open>tmp\<close> and equals it);
  \<open>idx\<close> is \<^verbatim>\<open>index\<close>.  The result is the class returned and the new state.
\<close>

partial_function (option) classify_inner :: "(int \<Rightarrow> int) \<Rightarrow> int \<Rightarrow> string \<Rightarrow> nat option \<Rightarrow> nat \<Rightarrow>
    nat \<Rightarrow> nat option \<Rightarrow> int \<Rightarrow> quote_state \<Rightarrow> (nat \<times> quote_state) option" where
  "classify_inner ColorQuote ColorQuoteUsed qptr q_list ptr offset tmp idx st =
     (case q_list of
        None \<Rightarrow>
          (case tmp of
             None \<Rightarrow> add_child ColorQuote ColorQuoteUsed qptr ptr st
           | Some t \<Rightarrow> finish_shift ColorQuote ColorQuoteUsed t idx st)
      | Some a \<Rightarrow>
          do {
            ql \<leftarrow> qread (qs_heap st) a;
            if length qptr \<le> q_length ql then
              if strncmp_eq (drop offset qptr) (drop offset (q_prefix ql)) (length qptr - offset) then
                if length qptr = q_length ql then Some (a, st)
                else
                  (case tmp of
                     None \<Rightarrow>
                       do {
                         r \<leftarrow> insert_above True qptr a st;
                         tn \<leftarrow> qread (qs_heap (snd r)) (fst r);
                         classify_inner ColorQuote ColorQuoteUsed qptr (q_next tn) ptr offset
                           (Some (fst r)) (q_index ql) ((snd r)\<lparr> qs_force_redraw := True \<rparr>)
                       }
                   | Some t \<Rightarrow>
                       do {
                         h \<leftarrow> move_below t a (qs_heap st);
                         classify_inner ColorQuote ColorQuoteUsed qptr (q_next ql) ptr offset
                           tmp (q_index ql) (st\<lparr> qs_heap := h, qs_force_redraw := True \<rparr>)
                       })
              else classify_inner ColorQuote ColorQuoteUsed qptr (q_next ql) ptr offset tmp idx st
            else
              if tmp = None \<and>
                 strncmp_eq (drop offset qptr) (drop offset (q_prefix ql)) (q_length ql - offset)
              then classify_inner ColorQuote ColorQuoteUsed qptr (q_down ql) a (q_length ql) tmp idx st
              else classify_inner ColorQuote ColorQuoteUsed qptr (q_next ql) ptr offset tmp idx st
          })"

declare classify_inner.simps [code]

text \<open>
  The end of \<^verbatim>\<open>classify_quote\<close> when the top level loop found no class: the prefix
  becomes a new first node of the top level list with a fresh colour.
\<close>

definition add_top :: "(int \<Rightarrow> int) \<Rightarrow> int \<Rightarrow> string \<Rightarrow> quote_state \<Rightarrow> (nat \<times> quote_state) option" where
  "add_top ColorQuote ColorQuoteUsed qptr st =
     do {
       let (class, h0) = new_node (qs_heap st) qptr;
       st1 \<leftarrow> new_class_color ColorQuote ColorQuoteUsed class (st\<lparr> qs_heap := h0 \<rparr>);
       h1 \<leftarrow> (case qs_quote_list st1 of
                None \<Rightarrow> Some (qs_heap st1)
              | Some r \<Rightarrow>
                  do {
                    h \<leftarrow> qwrite (qs_heap st1) class (\<lambda>n. n\<lparr> q_next := Some r \<rparr>);
                    qwrite h r (\<lambda>n. n\<lparr> q_prev := Some class \<rparr>)
                  });
       Some (class, st1\<lparr> qs_heap := h1, qs_quote_list := Some class \<rparr>)
     }"

text \<open>
  The top level loop of \<^verbatim>\<open>classify_quote\<close> (``case 1: check the top level nodes''),
  with what follows it.
\<close>

partial_function (option) classify_top :: "(int \<Rightarrow> int) \<Rightarrow> int \<Rightarrow> string \<Rightarrow> nat option \<Rightarrow>
    nat option \<Rightarrow> int \<Rightarrow> quote_state \<Rightarrow> (nat \<times> quote_state) option" where
  "classify_top ColorQuote ColorQuoteUsed qptr q_list tmp idx st =
     (case q_list of
        None \<Rightarrow>
          (case tmp of
             None \<Rightarrow> add_top ColorQuote ColorQuoteUsed qptr st
           | Some t \<Rightarrow> finish_shift ColorQuote ColorQuoteUsed t idx st)
      | Some a \<Rightarrow>
          do {
            ql \<leftarrow> qread (qs_heap st) a;
            if length qptr \<le> q_length ql then
              if strncmp_eq qptr (q_prefix ql) (length qptr) then
                if length qptr = q_length ql then Some (a, st)
                else
                  (case tmp of
                     None \<Rightarrow>
                       do {
                         r \<leftarrow> insert_above False qptr a st;
                         tn \<leftarrow> qread (qs_heap (snd r)) (fst r);
                         classify_top ColorQuote ColorQuoteUsed qptr (q_next tn)
                           (Some (fst r)) (q_index ql) ((snd r)\<lparr> qs_force_redraw := True \<rparr>)
                       }
                   | Some t \<Rightarrow>
                       do {
                         h \<leftarrow> move_below t a (qs_heap st);
                         classify_top ColorQuote ColorQuoteUsed qptr (q_next ql)
                           tmp (q_index ql) (st\<lparr> qs_heap := h, qs_force_redraw := True \<rparr>)
                       })
              else classify_top ColorQuote ColorQuoteUsed qptr (q_next ql) tmp idx st
            else
              if tmp = None \<and> strncmp_eq qptr (q_prefix ql) (q_length ql)
              then classify_inner ColorQuote ColorQuoteUsed qptr (q_down ql) a (q_length ql) None idx st
              else classify_top ColorQuote ColorQuoteUsed qptr (q_next ql) tmp idx st
          })"

declare classify_top.simps [code]

text \<open>
  \<^verbatim>\<open>classify_quote\<close>.  With at most one quote colour all prefixes share one node,
  created on the first call.
\<close>

definition classify_quote :: "(int \<Rightarrow> int) \<Rightarrow> int \<Rightarrow> string \<Rightarrow> quote_state \<Rightarrow>
    (nat \<times> quote_state) option" where
  "classify_quote ColorQuote ColorQuoteUsed qptr st =
     (if ColorQuoteUsed \<le> 1 then
        (case qs_quote_list st of
           None \<Rightarrow>
             Some (length (qs_heap st),
                   st\<lparr> qs_heap := qs_heap st @ [qclass0\<lparr> q_color := ColorQuote 0 \<rparr>],
                       qs_quote_list := Some (length (qs_heap st)) \<rparr>)
         | Some r \<Rightarrow> Some (r, st))
      else classify_top ColorQuote ColorQuoteUsed qptr (qs_quote_list st) None (-1) st)"

text \<open>
  A pager session starts with no quote classes.  \<open>classify_all\<close> runs
  \<^verbatim>\<open>classify_quote\<close> for a sequence of prefixes and collects the classes returned.
\<close>

definition quote_init :: quote_state where
  "quote_init = \<lparr> qs_heap = [], qs_quote_list = None, qs_q_level = 0, qs_force_redraw = False \<rparr>"

fun classify_all :: "(int \<Rightarrow> int) \<Rightarrow> int \<Rightarrow> string list \<Rightarrow> quote_state \<Rightarrow>
    (nat list \<times> quote_state) option" where
  "classify_all ColorQuote ColorQuoteUsed [] st = Some ([], st)"
| "classify_all ColorQuote ColorQuoteUsed (p # ps) st =
     do {
       r \<leftarrow> classify_quote ColorQuote ColorQuoteUsed p st;
       rs \<leftarrow> classify_all ColorQuote ColorQuoteUsed ps (snd r);
       Some (fst r # fst rs, snd rs)
     }"

section \<open>Line classification\<close>

text \<open>
  The configuration that \<^verbatim>\<open>resolve_types\<close> reads: \<^verbatim>\<open>C_HeaderColorPartial\<close>, the
  three rule lists, \<^verbatim>\<open>C_QuoteRegex\<close> and \<^verbatim>\<open>C_Smileys\<close>, the two marker strings and
  the quote palette.
\<close>

record pager_config =
  c_HeaderColorPartial :: bool
  c_ColorHdrList :: "ColorLine list"
  c_ColorBodyList :: "ColorLine list"
  c_ColorAttachList :: "ColorLine list"
  c_QuoteRegex :: "regex_t option"
  c_Smileys :: "regex_t option"
  c_AttachmentMarker :: string
  c_ProtectedHeaderMarker :: string
  c_ColorQuote :: "int \<Rightarrow> int"
  c_ColorQuoteUsed :: int

definition ISHEADER :: "ColorId \<Rightarrow> bool" where
  "ISHEADER x = (x = MT_COLOR_HEADER \<or> x = MT_COLOR_HDEFAULT)"

definition set_color0 :: "int \<Rightarrow> Line \<Rightarrow> Line" where
  "set_color0 c l = l\<lparr> l_syntax := (l_syntax l)[0 := (l_syntax l ! 0)\<lparr> s_color := c \<rparr>] \<rparr>"

definition color0 :: "Line \<Rightarrow> int" where
  "color0 l = s_color (l_syntax l ! 0)"

text \<open>
  The loop that recolours the earlier continuation lines of a header field:
  \<^verbatim>\<open>for (j = n - 1; j >= 0 && line_info[j].is_cont_hdr; --j)\<close>, followed by the first
  line of the field.  \<open>k\<close> is \<open>j + 1\<close>.
\<close>

fun recolor_header :: "ColorId \<Rightarrow> int \<Rightarrow> nat \<Rightarrow> Line list \<Rightarrow> Line list" where
  "recolor_header t c 0 info = info"
| "recolor_header t c (Suc j) info =
     (if l_is_cont_hdr (info ! j) \<noteq> 0
      then recolor_header t c j (info[j := set_color0 c ((info ! j)\<lparr> l_type := t \<rparr>)])
      else info[j := set_color0 c ((info ! j)\<lparr> l_type := t \<rparr>)])"

text \<open>
  \<^verbatim>\<open>STAILQ_FOREACH\<close> over \<^verbatim>\<open>ColorHdrList\<close> when whole header lines are coloured:
  the first matching rule sets the type and colour of line \<open>n\<close>, and recolours the
  field when the line is a continuation.  The result also tells whether
  \<^verbatim>\<open>*force_redraw\<close> is set.
\<close>

fun header_rules :: "ColorLine list \<Rightarrow> string \<Rightarrow> nat \<Rightarrow> Line list \<Rightarrow> Line list \<times> bool" where
  "header_rules [] buf n info = (info, False)"
| "header_rules (cl # cls) buf n info =
     (if cl_regex cl buf False \<noteq> None then
        (let info1 = info[n := set_color0 (cl_pair cl) ((info ! n)\<lparr> l_type := MT_COLOR_HEADER \<rparr>)]
         in if l_is_cont_hdr (info1 ! n) \<noteq> 0
            then (recolor_header MT_COLOR_HEADER (cl_pair cl) n info1, True)
            else (info1, False))
      else header_rules cls buf n info)"

text \<open>The header branch of \<^verbatim>\<open>resolve_types\<close>.\<close>

definition resolve_header :: "pager_config \<Rightarrow> string \<Rightarrow> nat \<Rightarrow> Line list \<Rightarrow> Line list \<times> bool" where
  "resolve_header cfg buf n info =
     (if byte_at buf 0 = CHR 0x0A then (info[n := (info ! n)\<lparr> l_type := MT_COLOR_NORMAL \<rparr>], False)
      else
        (let info1 =
               (if n > 0 \<and> (byte_at buf 0 = CHR '' '' \<or> byte_at buf 0 = CHR 0x09) then
                  (let l1 = (info ! n)\<lparr> l_type := l_type (info ! (n - 1)) \<rparr>
                   in info[n := (if \<not> c_HeaderColorPartial cfg
                                 then (set_color0 (color0 (info ! (n - 1))) l1)\<lparr> l_is_cont_hdr := 1 \<rparr>
                                 else l1)])
                else info[n := (info ! n)\<lparr> l_type := MT_COLOR_HDEFAULT \<rparr>])
         in if \<not> c_HeaderColorPartial cfg then header_rules (c_ColorHdrList cfg) buf n info1
            else (info1, False)))"

text \<open>
  The forward scan after a signature delimiter at line \<open>n\<close> (\<open>last_n\<close> is the
  parameter \<^verbatim>\<open>last\<close>): the loop
  \<^verbatim>\<open>while (i < last && check_sig(buf, line_info, i - 1) == 0 && \<dots>)\<close>.  When a line
  with chunks is reclaimed, the code resets that line's count and reallocates the
  chunk array of line \<open>n\<close>.
\<close>

function sig_scan :: "string \<Rightarrow> nat \<Rightarrow> nat \<Rightarrow> nat \<Rightarrow> Line list \<Rightarrow> Line list" where
  "sig_scan buf n last_n i info =
     (if i < last_n \<and> check_sig buf info (i - 1) = 0 \<and>
         (l_type (info ! i) = MT_COLOR_NORMAL \<or> l_type (info ! i) = MT_COLOR_QUOTED \<or>
          l_type (info ! i) = MT_COLOR_HEADER)
      then
        (let info1 = (if l_chunks (info ! i) \<noteq> 0
                      then (info[i := (info ! i)\<lparr> l_chunks := 0 \<rparr>])
                             [n := (info[i := (info ! i)\<lparr> l_chunks := 0 \<rparr>] ! n)
                                     \<lparr> l_syntax := take 1 (l_syntax (info[i := (info ! i)\<lparr> l_chunks := 0 \<rparr>] ! n)) \<rparr>]
                      else info)
         in sig_scan buf n last_n (i + 1) (info1[i := (info1 ! i)\<lparr> l_type := MT_COLOR_SIGNATURE \<rparr>]))
      else info)"
  by pat_completeness auto
termination
  by (relation "measure (\<lambda>(buf, n, last_n, i, info). last_n - i)") auto

declare sig_scan.simps [simp del]

text \<open>
  The type decision of \<^verbatim>\<open>resolve_types\<close> for line \<open>n\<close>, with clean text \<open>buf\<close> and
  raw text \<open>raw\<close>.  The result is the line array and the quote state, or
  \<^term>\<open>None\<close> when \<^verbatim>\<open>classify_quote\<close> does not return.
\<close>

definition resolve_type :: "pager_config \<Rightarrow> string \<Rightarrow> string \<Rightarrow> nat \<Rightarrow> nat \<Rightarrow> bool \<Rightarrow>
    Line list \<Rightarrow> quote_state \<Rightarrow> (Line list \<times> quote_state) option" where
  "resolve_type cfg buf raw n last_n q_classify info qs =
     (if n = 0 \<or> ISHEADER (l_type (info ! (n - 1))) \<or>
         check_marker (c_ProtectedHeaderMarker cfg) raw = 0 then
        (case resolve_header cfg buf n info of
           (info1, redraw) \<Rightarrow>
             Some (info1, if redraw then qs\<lparr> qs_force_redraw := True \<rparr> else qs))
      else if take 4 raw = [CHR 0x1B, CHR ''['', CHR ''0'', CHR ''m''] then
        Some (info[n := (info ! n)\<lparr> l_type := MT_COLOR_NORMAL \<rparr>], qs)
      else if check_marker (c_AttachmentMarker cfg) raw = 0 then
        Some (info[n := (info ! n)\<lparr> l_type := MT_COLOR_ATTACHMENT \<rparr>], qs)
      else if buf = ''-- '' @ [CHR 0x0A] \<or> buf = ''-- '' @ [CHR 0x0D, CHR 0x0A] then
        Some (sig_scan buf n last_n (n + 1) (info[n := (info ! n)\<lparr> l_type := MT_COLOR_SIGNATURE \<rparr>]), qs)
      else if check_sig buf info (n - 1) = 0 then
        Some (info[n := (info ! n)\<lparr> l_type := MT_COLOR_SIGNATURE \<rparr>], qs)
      else
        (case mutt_is_quote_line (c_QuoteRegex cfg) (c_Smileys cfg) buf of
           Some pmatch \<Rightarrow>
             if q_classify \<and> l_quote (info ! n) = None then
               do {
                 r \<leftarrow> classify_quote (c_ColorQuote cfg) (c_ColorQuoteUsed cfg)
                        (take (snd pmatch - fst pmatch) (drop (fst pmatch) buf)) qs;
                 Some (info[n := (info ! n)\<lparr> l_quote := Some (fst r), l_type := MT_COLOR_QUOTED \<rparr>],
                       snd r)
               }
             else Some (info[n := (info ! n)\<lparr> l_type := MT_COLOR_QUOTED \<rparr>], qs)
         | None \<Rightarrow> Some (info[n := (info ! n)\<lparr> l_type := MT_COLOR_NORMAL \<rparr>], qs)))"

text \<open>
  \<^verbatim>\<open>resolve_types\<close>: the type decision, then the body/header pass for the types
  Normal and Quoted (and for \<^verbatim>\<open>MT_COLOR_HDEFAULT\<close> with partial header colouring),
  and the attachment pass for Attachment.  The \<^verbatim>\<open>stop_matching\<close> flags are cleared at
  the start of every pass, so the rule lists as left behind are not kept.  The result
  is \<^term>\<open>None\<close> when a loop does not end or \<^verbatim>\<open>classify_quote\<close> does not return, and
  a fault when a pass leaves the chunk array.
\<close>

definition resolve_types :: "pager_config \<Rightarrow> string \<Rightarrow> string \<Rightarrow> nat \<Rightarrow> nat \<Rightarrow> bool \<Rightarrow>
    Line list \<Rightarrow> quote_state \<Rightarrow> (fault + (Line list \<times> quote_state)) option" where
  "resolve_types cfg buf raw n last_n q_classify info qs =
     do {
       r \<leftarrow> resolve_type cfg buf raw n last_n q_classify info qs;
       let info1 = fst r; t = l_type (info1 ! n) in
       if t = MT_COLOR_NORMAL \<or> t = MT_COLOR_QUOTED \<or>
          (t = MT_COLOR_HDEFAULT \<and> c_HeaderColorPartial cfg) then
         do {
           p \<leftarrow> body_patterns
                  (if t = MT_COLOR_HDEFAULT then c_ColorHdrList cfg else c_ColorBodyList cfg)
                  buf (l_syntax (info1 ! n));
           (case p of
              Inl e \<Rightarrow> Some (Inl e)
            | Inr (rules, chunks, syn) \<Rightarrow>
                Some (Inr (info1[n := (info1 ! n)\<lparr> l_chunks := chunks, l_syntax := syn \<rparr>], snd r)))
         }
       else if t = MT_COLOR_ATTACHMENT then
         do {
           p \<leftarrow> attachment_patterns (c_ColorAttachList cfg) buf (l_syntax (info1 ! n));
           (case p of
              Inl e \<Rightarrow> Some (Inl e)
            | Inr (chunks, syn) \<Rightarrow>
                Some (Inr (info1[n := (info1 ! n)\<lparr> l_chunks := chunks, l_syntax := syn \<rparr>], snd r)))
         }
       else Some (Inr r)
     }"

section \<open>Invalidation of the line array\<close>

text \<open>
  The fields of \<^verbatim>\<open>struct PagerRedrawData\<close> that the reflow block of
  \<^verbatim>\<open>pager_custom_redraw\<close> and the search commands of \<^verbatim>\<open>mutt_pager\<close> read or
  write.  A flag word is the set of its flags; \<open>rd_quote\<close> holds \<^verbatim>\<open>quote_list\<close>,
  \<^verbatim>\<open>q_level\<close> and \<^verbatim>\<open>force_redraw\<close> with the store of the quote classes.
\<close>

record PagerRedrawData =
  rd_flags :: "PagerFlag set"
  rd_lines :: int
  rd_max_line :: nat
  rd_last_line :: nat
  rd_topline :: nat
  rd_has_types :: "PagerFlag set"
  rd_quote :: quote_state
  rd_search_compiled :: bool
  rd_search_flag :: "PagerFlag set"
  rd_line_info :: "Line list"

text \<open>
  The first loop of the \<^verbatim>\<open>REDRAW_FLOW\<close> block: \<^verbatim>\<open>rd->lines\<close> starts at \<open>-1\<close> and
  counts the lines \<open>0 \<dots> topline\<close> that are not continuations.
\<close>

definition count_logical :: "Line list \<Rightarrow> nat \<Rightarrow> int" where
  "count_logical info topline =
     int (length (filter (\<lambda>i. l_continuation (info ! i) = 0) [0..<Suc topline])) - 1"

text \<open>
  The body of the second loop.  \<^verbatim>\<open>mutt_mem_realloc\<close> cuts the chunk array to its first
  element, whose content stays; the search chunks are freed only when a search pattern
  is compiled; \<^verbatim>\<open>is_cont_hdr\<close> is not assigned.
\<close>

definition reset_line :: "bool \<Rightarrow> Line \<Rightarrow> Line" where
  "reset_line search_compiled l =
     l\<lparr> l_offset := 0,
        l_type := MT_COLOR_UNSET,
        l_continuation := 0,
        l_chunks := 0,
        l_search_cnt := -1,
        l_quote := None,
        l_syntax := take 1 (l_syntax l),
        l_search := (if search_compiled then None else l_search l) \<rparr>"

definition map_upto :: "nat \<Rightarrow> ('a \<Rightarrow> 'a) \<Rightarrow> 'a list \<Rightarrow> 'a list" where
  "map_upto k f xs = map f (take k xs) @ drop k xs"

text \<open>
  The block of \<^verbatim>\<open>pager_custom_redraw\<close> run for \<^verbatim>\<open>REDRAW_FLOW\<close> when
  \<^verbatim>\<open>MUTT_PAGER_RETWINCH\<close> is not set, up to the replay loop.
\<close>

definition redraw_flow_reset :: "PagerRedrawData \<Rightarrow> PagerRedrawData" where
  "redraw_flow_reset rd =
     (if MUTT_PAGER_RETWINCH \<in> rd_flags rd then rd
      else rd\<lparr> rd_lines := count_logical (rd_line_info rd) (rd_topline rd),
               rd_line_info :=
                 map_upto (rd_max_line rd) (reset_line (rd_search_compiled rd)) (rd_line_info rd),
               rd_last_line := 0,
               rd_topline := 0 \<rparr>)"

text \<open>
  The loop of \<^verbatim>\<open>OP_SEARCH\<close> in \<^verbatim>\<open>mutt_pager\<close> that runs before a new pattern is
  compiled when one was compiled before: the search chunks of the lines below
  \<^verbatim>\<open>last_line\<close> are freed and their count is set to \<open>-1\<close>.
\<close>

definition reset_search :: "Line \<Rightarrow> Line" where
  "reset_search l = l\<lparr> l_search := None, l_search_cnt := -1 \<rparr>"

definition search_invalidate :: "PagerRedrawData \<Rightarrow> PagerRedrawData" where
  "search_invalidate rd =
     (if rd_search_compiled rd
      then rd\<lparr> rd_line_info := map_upto (rd_last_line rd) reset_search (rd_line_info rd) \<rparr>
      else rd)"

definition line_ex :: "int \<Rightarrow> ColorId \<Rightarrow> Line" where
  "line_ex off t =
     \<lparr> l_offset = off, l_type = t, l_continuation = 0, l_chunks = 0, l_search_cnt = -1,
       l_syntax = [\<lparr> s_color = 0, s_first = -1, s_last = -1 \<rparr>], l_search = None,
       l_quote = None, l_is_cont_hdr = 0 \<rparr>"

definition rd_ex :: PagerRedrawData where
  "rd_ex =
     \<lparr> rd_flags = {MUTT_SHOWCOLOR}, rd_lines = 0, rd_max_line = 3, rd_last_line = 2,
       rd_topline = 1, rd_has_types = {MUTT_TYPES}, rd_quote = quote_init,
       rd_search_compiled = True, rd_search_flag = {},
       rd_line_info =
         [line_ex 0 MT_COLOR_NORMAL,
          (line_ex 10 MT_COLOR_NORMAL)
            \<lparr> l_chunks := 2,
              l_syntax := [\<lparr> s_color = 3, s_first = 0, s_last = 2 \<rparr>,
                           \<lparr> s_color = 5, s_first = 4, s_last = 6 \<rparr>],
              l_search_cnt := 1,
              l_search := Some [\<lparr> s_color = 0, s_first = 4, s_last = 6 \<rparr>] \<rparr>,
          line_ex 25 MT_COLOR_UNSET] \<rparr>"

definition sig_block_ex :: "Line list" where
  "sig_block_ex =
     [line_ex 0 MT_COLOR_NORMAL, line_ex 5 MT_COLOR_SIGNATURE, line_ex 9 MT_COLOR_SIGNATURE,
      line_ex 14 MT_COLOR_SIGNATURE, line_ex 19 MT_COLOR_SIGNATURE, line_ex 24 MT_COLOR_SIGNATURE]"

text \<open>
  The same lines with one more slot, for a line that is not classified yet.
\<close>

definition sig_lines_ex :: "Line list" where
  "sig_lines_ex = sig_block_ex @ [line_ex 33 MT_COLOR_UNSET]"

section \<open>Scanning a line\<close>

text \<open>
  What \<^verbatim>\<open>display_line\<close> reads besides its arguments: the configuration of
  \<^verbatim>\<open>resolve_types\<close>, the environment of \<^verbatim>\<open>format_line\<close>, the file, the compiled
  search pattern, the screen height \<^verbatim>\<open>LINES\<close> and \<^verbatim>\<open>C_SmartWrap\<close>.  The file is
  given by \<^verbatim>\<open>mutt_file_read_line\<close> with \<^verbatim>\<open>MUTT_EOL\<close> after a seek to an offset: the
  bytes from there up to and including the next line end, or \<^term>\<open>None\<close> at the end
  of the file.  The file holds no NUL byte, so that the number of bytes read is the
  length of the buffer.  The two marker strings are those of the formatting
  environment.
\<close>

record 'mbs pager_env =
  p_cfg :: pager_config
  p_fmt :: "'mbs fmt_env"
  p_read_line :: "int \<Rightarrow> string option"
  p_search_re :: regex_t
  p_LINES :: nat
  p_C_SmartWrap :: bool

text \<open>
  \<^verbatim>\<open>fill_buffer\<close> on an empty buffer: \<^term>\<open>None\<close> is the return value \<open>-1\<close>;
  otherwise the raw line and its copy without bold and underline controls, the return
  value being the length of the raw line.  \<^verbatim>\<open>last_pos\<close> only saves a seek and is left
  out.
\<close>

definition fill_buffer :: "'mbs pager_env \<Rightarrow> int \<Rightarrow> (string \<times> (fault + string)) option" where
  "fill_buffer env offset =
     (case p_read_line env offset of
        None \<Rightarrow> None
      | Some buf \<Rightarrow>
          Some (buf, fill_buffer_copy (e_AttachmentMarker (p_fmt env))
                       (e_ProtectedHeaderMarker (p_fmt env)) buf))"

text \<open>
  A slot as the growth loop of \<^verbatim>\<open>display_line\<close> initialises it: zeroed, with type and
  search count \<open>-1\<close> and one chunk whose bounds are \<open>-1\<close>.  The colour of that chunk
  is not written; it is 0 here.
\<close>

definition line_new :: Line where
  "line_new =
     \<lparr> l_offset = 0, l_type = MT_COLOR_UNSET, l_continuation = 0, l_chunks = 0, l_search_cnt = -1,
       l_syntax = [\<lparr> s_color = 0, s_first = -1, s_last = -1 \<rparr>], l_search = None,
       l_quote = None, l_is_cont_hdr = 0 \<rparr>"

text \<open>
  \<^verbatim>\<open>append_line\<close>: line \<open>n + 1\<close> becomes a continuation of line \<open>n\<close>.  The loop
  \<^verbatim>\<open>for (m = n; m >= 0; m--)\<close> finds the start of the logical line, and ends with
  \<open>-1\<close> when there is none.
\<close>

fun real_start :: "Line list \<Rightarrow> nat \<Rightarrow> int" where
  "real_start info 0 = (if l_continuation (info ! 0) = 0 then 0 else -1)"
| "real_start info (Suc m) =
     (if l_continuation (info ! Suc m) = 0 then int (Suc m) else real_start info m)"

definition append_line :: "Line list \<Rightarrow> nat \<Rightarrow> int \<Rightarrow> Line list" where
  "append_line info n cnt =
     info[n + 1 :=
       (let l = set_color0 (color0 (info ! n))
                  ((info ! (n + 1))\<lparr> l_type := l_type (info ! n), l_continuation := 1 \<rparr>)
        in l\<lparr> l_syntax := (l_syntax l)[0 := (l_syntax l ! 0)
                 \<lparr> s_first := real_start info n,
                   s_last := (if l_continuation (info ! n) \<noteq> 0
                              then cnt + s_last (l_syntax (info ! n) ! 0) else cnt) \<rparr>] \<rparr>)]"

text \<open>
  What \<^verbatim>\<open>display_line\<close> is given by reference: \<^verbatim>\<open>line_info\<close>, \<^verbatim>\<open>last\<close>,
  \<^verbatim>\<open>max\<close>, and the quote state (\<^verbatim>\<open>quote_list\<close>, \<^verbatim>\<open>q_level\<close> and
  \<^verbatim>\<open>force_redraw\<close>).
\<close>

record scan_state =
  sc_info :: "Line list"
  sc_last :: nat
  sc_max :: nat
  sc_quote :: quote_state

text \<open>
  The state of one call of \<^verbatim>\<open>display_line\<close>: the data given by reference, its
  local copy of \<^verbatim>\<open>flags\<close>, \<^verbatim>\<open>change_last\<close>, and the buffers: \<open>d_buf\<close> is \<^term>\<open>None\<close>
  while \<^verbatim>\<open>buf_ready\<close> is 0, and holds \<^verbatim>\<open>buf\<close> and \<^verbatim>\<open>fmt\<close> afterwards, \<^verbatim>\<open>fmt\<close>
  being a fault once it has lost its terminator.
\<close>

record dl_state =
  d_sc :: scan_state
  d_flags :: "PagerFlag set"
  d_change_last :: bool
  d_buf :: "(string \<times> (fault + string)) option"

text \<open>
  A part of \<^verbatim>\<open>display_line\<close> either leaves the function (\<^verbatim>\<open>goto out\<close>) with a return
  code, or goes on.  A part that does not end is \<^term>\<open>None\<close>.
\<close>

datatype 's stage = Return int scan_state | Next 's

definition then_stage :: "(fault + 's stage) option \<Rightarrow> ('s \<Rightarrow> (fault + 't stage) option) \<Rightarrow>
    (fault + 't stage) option" where
  "then_stage r f =
     (case r of
        None \<Rightarrow> None
      | Some (Inl e) \<Rightarrow> Some (Inl e)
      | Some (Inr (Return rc sc)) \<Rightarrow> Some (Inr (Return rc sc))
      | Some (Inr (Next s)) \<Rightarrow> f s)"

text \<open>The start of \<^verbatim>\<open>display_line\<close>: \<^verbatim>\<open>last\<close> is moved and the array is grown.\<close>

definition dl_grow :: "'mbs pager_env \<Rightarrow> nat \<Rightarrow> PagerFlag set \<Rightarrow> scan_state \<Rightarrow> dl_state" where
  "dl_grow env n flags sc =
     (let last1 = (if n = sc_last sc then sc_last sc + 1 else sc_last sc);
          sc1 = sc\<lparr> sc_last := last1 \<rparr>
      in \<lparr> d_sc = (if last1 = sc_max sc
                  then sc1\<lparr> sc_max := sc_max sc + p_LINES env,
                            sc_info := sc_info sc @ replicate (p_LINES env) line_new \<rparr>
                  else sc1),
           d_flags = flags, d_change_last = (n = sc_last sc), d_buf = None \<rparr>)"

text \<open>
  A call of \<^verbatim>\<open>fill_buffer\<close> followed by the code \<open>k\<close> that uses the buffers.  When
  the read fails, \<^verbatim>\<open>last\<close> is moved back if it was moved, and the result is \<open>-1\<close>.
\<close>

definition dl_fail :: "dl_state \<Rightarrow> (fault + 's stage) option" where
  "dl_fail s =
     Some (Inr (Return (-1) (if d_change_last s
                             then (d_sc s)\<lparr> sc_last := sc_last (d_sc s) - 1 \<rparr>
                             else d_sc s)))"

definition with_buffer :: "'mbs pager_env \<Rightarrow> nat \<Rightarrow> dl_state \<Rightarrow>
    (string \<Rightarrow> fault + string \<Rightarrow> dl_state \<Rightarrow> (fault + 's stage) option) \<Rightarrow> (fault + 's stage) option" where
  "with_buffer env n s k =
     (case d_buf s of
        Some b \<Rightarrow> k (fst b) (snd b) s
      | None \<Rightarrow>
          (case fill_buffer env (l_offset (sc_info (d_sc s) ! n)) of
             None \<Rightarrow> dl_fail s
           | Some b \<Rightarrow>
               (case snd b of
                  Inl e \<Rightarrow> Some (Inl e)
                | Inr fmt \<Rightarrow> k (fst b) (Inr fmt) (s\<lparr> d_buf := Some b \<rparr>))))"

text \<open>
  The loop after \<^verbatim>\<open>resolve_types\<close> that copies the type of line \<open>n\<close> to the
  continuation lines already scanned behind it.
\<close>

function race_types :: "nat \<Rightarrow> nat \<Rightarrow> nat \<Rightarrow> Line list \<Rightarrow> Line list" where
  "race_types n last_n m info =
     (if m < last_n \<and> l_offset (info ! m) \<noteq> 0 \<and> l_continuation (info ! m) \<noteq> 0
      then race_types n last_n (m + 1) (info[m := (info ! m)\<lparr> l_type := l_type (info ! n) \<rparr>])
      else info)"
  by pat_completeness auto
termination
  by (relation "measure (\<lambda>(n, last_n, m, info). last_n - m)") auto

declare race_types.simps [simp del]

text \<open>
  \<^verbatim>\<open>fmt\<close> as \<^verbatim>\<open>resolve_types\<close> leaves it.  A highlight pass replaces a final newline
  by NUL, and at its end writes a newline at the place of the terminator it found
  on entry: a text that ended in a newline has lost it, and a non-empty text that did
  not has lost its terminator.
\<close>

definition fmt_after_resolve :: "bool \<Rightarrow> ColorId \<Rightarrow> string \<Rightarrow> fault + string" where
  "fmt_after_resolve partial t fmt =
     (if (t = MT_COLOR_NORMAL \<or> t = MT_COLOR_QUOTED \<or> (t = MT_COLOR_HDEFAULT \<and> partial) \<or>
          t = MT_COLOR_ATTACHMENT) \<and> fmt \<noteq> []
      then (if last fmt = CHR 0x0A then Inr (butlast fmt) else Inl OutOfBounds)
      else Inr fmt)"

text \<open>
  The block guarded by \<^verbatim>\<open>flags & (MUTT_SHOWCOLOR | MUTT_TYPES)\<close>: the type of line
  \<open>n\<close> is resolved if it is not known, and a hidden quoted line clears the flags.
\<close>

definition dl_types :: "'mbs pager_env \<Rightarrow> nat \<Rightarrow> dl_state \<Rightarrow> (fault + dl_state stage) option" where
  "dl_types env n s =
     (if d_flags s \<inter> {MUTT_SHOWCOLOR, MUTT_TYPES} = {} then Some (Inr (Next s))
      else if \<not> n < length (sc_info (d_sc s)) then Some (Inl OutOfBounds)
      else
        then_stage
          (if l_type (sc_info (d_sc s) ! n) = MT_COLOR_UNSET then
             with_buffer env n s (\<lambda>buf fmt s1.
               case fmt of
                 Inl e \<Rightarrow> Some (Inl e)
               | Inr f \<Rightarrow>
                   (case resolve_types (p_cfg env) f buf n (sc_last (d_sc s1))
                           (MUTT_SHOWCOLOR \<in> d_flags s1) (sc_info (d_sc s1))
                           (sc_quote (d_sc s1)) of
                      None \<Rightarrow> None
                    | Some (Inl e) \<Rightarrow> Some (Inl e)
                    | Some (Inr r) \<Rightarrow>
                        Some (Inr (Next (s1\<lparr>
                          d_sc := (d_sc s1)\<lparr>
                            sc_info := race_types n (sc_last (d_sc s1)) (n + 1) (fst r),
                            sc_quote := snd r \<rparr>,
                          d_buf := Some (buf, fmt_after_resolve (c_HeaderColorPartial (p_cfg env))
                                                (l_type (fst r ! n)) f) \<rparr>)))))
           else Some (Inr (Next s)))
          (\<lambda>s1. Some (Inr (Next
             (if MUTT_HIDE \<in> d_flags s1 \<and> l_type (sc_info (d_sc s1) ! n) = MT_COLOR_QUOTED
              then s1\<lparr> d_flags := {} \<rparr> else s1)))))"

text \<open>
  The search loop.  \<^verbatim>\<open>search_cnt\<close> is a \<^verbatim>\<open>short\<close>; the chunk array is allocated for
  the first match and reallocated for the later ones, and the bounds of the match are
  written at index \<open>search_cnt - 1\<close>.  The loop ends when the pattern does not match
  or the text is used up; it reads beyond the text when an empty match is found at
  its end.
\<close>

partial_function (option) search_loop :: "regex_t \<Rightarrow> string \<Rightarrow> nat \<Rightarrow> int \<Rightarrow> Syntax list option \<Rightarrow>
    (fault + int \<times> Syntax list option) option" where
  "search_loop re fmt offset cnt search =
     (case re (drop offset fmt) (offset \<noteq> 0) of
        None \<Rightarrow> Some (Inr (cnt, search))
      | Some pmatch \<Rightarrow>
          (let cnt1 = short_of (cnt + 1);
               arr = (if cnt1 > 1
                      then realloc_syntax (case search of None \<Rightarrow> [] | Some a \<Rightarrow> a) (nat cnt1)
                      else [syntax_uninit]);
               offset1 = (if snd pmatch = fst pmatch then offset + 1 else snd pmatch + offset)
           in if cnt1 - 1 < 0 \<or> \<not> nat (cnt1 - 1) < length arr then Some (Inl OutOfBounds)
              else if offset1 > length fmt then Some (Inl OutOfBounds)
              else if byte_at fmt offset1 = CHR 0x00
                then Some (Inr (cnt1, Some (arr[nat (cnt1 - 1) := (arr ! nat (cnt1 - 1))
                        \<lparr> s_first := int (fst pmatch + offset), s_last := int (snd pmatch + offset) \<rparr>])))
              else search_loop re fmt offset1 cnt1
                     (Some (arr[nat (cnt1 - 1) := (arr ! nat (cnt1 - 1))
                        \<lparr> s_first := int (fst pmatch + offset), s_last := int (snd pmatch + offset) \<rparr>]))))"

declare search_loop.simps [code]

text \<open>The block guarded by \<^verbatim>\<open>MUTT_SEARCH\<close>.\<close>

definition dl_search :: "'mbs pager_env \<Rightarrow> nat \<Rightarrow> dl_state \<Rightarrow> (fault + dl_state stage) option" where
  "dl_search env n s =
     (if MUTT_SEARCH \<notin> d_flags s then Some (Inr (Next s))
      else if \<not> n < length (sc_info (d_sc s)) then Some (Inl OutOfBounds)
      else if l_continuation (sc_info (d_sc s) ! n) = 0 \<and>
              l_search_cnt (sc_info (d_sc s) ! n) = -1 then
        with_buffer env n s (\<lambda>buf fmt s1.
          case fmt of
            Inl e \<Rightarrow> Some (Inl e)
          | Inr f \<Rightarrow>
              (case search_loop (p_search_re env) f 0 0 (l_search (sc_info (d_sc s1) ! n)) of
                 None \<Rightarrow> None
               | Some (Inl e) \<Rightarrow> Some (Inl e)
               | Some (Inr r) \<Rightarrow>
                   Some (Inr (Next (s1\<lparr> d_sc := (d_sc s1)\<lparr> sc_info :=
                     (sc_info (d_sc s1))[n := (sc_info (d_sc s1) ! n)
                        \<lparr> l_search_cnt := fst r, l_search := snd r \<rparr>] \<rparr> \<rparr>)))))
      else Some (Inr (Next s)))"

text \<open>
  The choice of the break point.  \<open>cnt\<close> is the value of \<^verbatim>\<open>format_line\<close> and \<open>ch\<close>
  the position of the last space that it reports (\<open>-1\<close> for none).  The result is
  \<^verbatim>\<open>buf_ptr - buf\<close>, the number of bytes that the line takes from the file.
\<close>

primrec skip_trailing :: "string \<Rightarrow> nat \<Rightarrow> nat" where
  "skip_trailing buf 0 = 0"
| "skip_trailing buf (Suc k) =
     (if byte_at buf (Suc k) = CHR '' '' \<or> byte_at buf (Suc k) = CHR 0x09 \<or>
         byte_at buf (Suc k) = CHR 0x0D
      then skip_trailing buf k else Suc k)"

definition skip_blanks :: "string \<Rightarrow> nat \<Rightarrow> nat" where
  "skip_blanks buf p = p + length (takeWhile (\<lambda>c. c = CHR '' '' \<or> c = CHR 0x09) (drop p buf))"

definition wrap_break :: "bool \<Rightarrow> PagerFlag set \<Rightarrow> ColorId \<Rightarrow> string \<Rightarrow> nat \<Rightarrow> nat \<Rightarrow> int \<Rightarrow> nat" where
  "wrap_break smart flags t buf b_read cnt ch =
     (let p = (if smart then
                 (let p0 = (if cnt < b_read \<and> ch \<noteq> -1 \<and> \<not> ISHEADER t \<and> \<not> ISSPACE (byte_at buf cnt)
                            then (if skip_trailing buf (nat ch) = 0 then cnt else nat ch)
                            else cnt)
                  in if MUTT_PAGER_NSKIP \<notin> flags then skip_blanks buf p0 else p0)
               else cnt);
          p1 = (if byte_at buf p = CHR 0x0D then p + 1 else p)
      in if byte_at buf p1 = CHR 0x0A then p1 + 1 else p1)"

text \<open>
  The rest of \<^verbatim>\<open>display_line\<close> up to the return that is taken when no
  \<^verbatim>\<open>MUTT_SHOW\<close> flag is set: a line whose successor has an offset was scanned before;
  otherwise the line is measured by \<^verbatim>\<open>format_line\<close>, the break point is chosen, the
  next slot becomes a continuation if the line of the file is not used up, and the
  offset of the next slot is set.
\<close>

definition dl_measure :: "'mbs pager_env \<Rightarrow> nat \<Rightarrow> dl_state \<Rightarrow> (fault + dl_state stage) option" where
  "dl_measure env n s =
     (if \<not> n + 1 < length (sc_info (d_sc s)) then Some (Inl OutOfBounds)
      else if l_offset (sc_info (d_sc s) ! (n + 1)) > 0 then Some (Inr (Return 0 (d_sc s)))
      else
        with_buffer env n s (\<lambda>buf fmt s1.
          case format_line (p_fmt env) (sc_info (d_sc s1)) n buf (d_flags s1) None (length buf) of
            None \<Rightarrow> None
          | Some st \<Rightarrow>
              (let info = sc_info (d_sc s1);
                   used = wrap_break (p_C_SmartWrap env) (d_flags s1) (l_type (info ! n)) buf
                            (length buf) (f_ch st) (f_space st);
                   info1 = (if used < length buf \<and> l_continuation (info ! (n + 1)) = 0
                            then append_line info n (int used) else info)
               in Some (Inr (Return 0 ((d_sc s1)\<lparr> sc_info :=
                    info1[n + 1 := (info1 ! (n + 1))
                            \<lparr> l_offset := l_offset (info1 ! n) + int used \<rparr>] \<rparr>))))))"

text \<open>
  \<^verbatim>\<open>display_line\<close> for a flag word without \<^verbatim>\<open>MUTT_SHOWFLAT\<close>, \<^verbatim>\<open>MUTT_SHOWCOLOR\<close> and
  \<^verbatim>\<open>MUTT_PAGER_LOGS\<close>, as the replay loop of \<^verbatim>\<open>pager_custom_redraw\<close> calls it: the
  blocks guarded by \<^verbatim>\<open>MUTT_PAGER_LOGS\<close> and by \<^verbatim>\<open>MUTT_SHOWCOLOR\<close> alone are not
  entered, and the function returns before it draws.  The result is the return code
  and the data given by reference.
\<close>

definition display_line_scan :: "'mbs pager_env \<Rightarrow> nat \<Rightarrow> PagerFlag set \<Rightarrow> scan_state \<Rightarrow>
    (fault + int \<times> scan_state) option" where
  "display_line_scan env n flags sc =
     (case then_stage (then_stage (dl_types env n (dl_grow env n flags sc)) (dl_search env n))
             (dl_measure env n) of
        None \<Rightarrow> None
      | Some (Inl e) \<Rightarrow> Some (Inl e)
      | Some (Inr (Return rc sc1)) \<Rightarrow> Some (Inr (rc, sc1))
      | Some (Inr (Next s)) \<Rightarrow> Some (Inr (0, d_sc s)))"

section \<open>Reflow\<close>

text \<open>
  The arguments that the replay loop of the \<^verbatim>\<open>REDRAW_FLOW\<close> block passes to
  \<^verbatim>\<open>display_line\<close> by reference are fields of the redraw data.
\<close>

definition scan_of :: "PagerRedrawData \<Rightarrow> scan_state" where
  "scan_of rd =
     \<lparr> sc_info = rd_line_info rd, sc_last = rd_last_line rd, sc_max = rd_max_line rd,
       sc_quote = rd_quote rd \<rparr>"

definition put_scan :: "scan_state \<Rightarrow> PagerRedrawData \<Rightarrow> PagerRedrawData" where
  "put_scan sc rd =
     rd\<lparr> rd_line_info := sc_info sc, rd_last_line := sc_last sc, rd_max_line := sc_max sc,
         rd_quote := sc_quote sc \<rparr>"

definition flow_flags :: "PagerRedrawData \<Rightarrow> PagerFlag set" where
  "flow_flags rd = rd_has_types rd \<union> rd_search_flag rd \<union> (rd_flags rd \<inter> {MUTT_PAGER_NOWRAP})"

text \<open>
  The replay loop.  \<open>i\<close> is the value of \<^verbatim>\<open>++i\<close>, the line that is scanned, and
  \<open>j\<close> the value of \<^verbatim>\<open>j\<close> before the test.
\<close>

partial_function (option) flow_loop :: "'mbs pager_env \<Rightarrow> nat \<Rightarrow> int \<Rightarrow> PagerRedrawData \<Rightarrow>
    (fault + PagerRedrawData) option" where
  "flow_loop env i j rd =
     (case display_line_scan env i (flow_flags rd) (scan_of rd) of
        None \<Rightarrow> None
      | Some (Inl e) \<Rightarrow> Some (Inl e)
      | Some (Inr r) \<Rightarrow>
          if fst r \<noteq> 0 then Some (Inr (put_scan (snd r) rd))
          else if l_continuation (sc_info (snd r) ! i) = 0 then
            (if j + 1 = rd_lines rd then
               (if rd_search_flag rd = {}
                then Some (Inr ((put_scan (snd r) rd)\<lparr> rd_topline := i \<rparr>))
                else flow_loop env (i + 1) (j + 1) ((put_scan (snd r) rd)\<lparr> rd_topline := i \<rparr>))
             else flow_loop env (i + 1) (j + 1) (put_scan (snd r) rd))
          else flow_loop env (i + 1) j (put_scan (snd r) rd))"

declare flow_loop.simps [code]

text \<open>The \<^verbatim>\<open>REDRAW_FLOW\<close> block of \<^verbatim>\<open>pager_custom_redraw\<close>.\<close>

definition redraw_flow :: "'mbs pager_env \<Rightarrow> PagerRedrawData \<Rightarrow> (fault + PagerRedrawData) option" where
  "redraw_flow env rd = flow_loop env 0 (-1) (redraw_flow_reset rd)"

text \<open>
  The data after the first \<open>k\<close> calls of the replay loop, for the lines
  \<open>0 \<dots> k - 1\<close>, when each of them has returned 0.
\<close>

primrec replay :: "'mbs pager_env \<Rightarrow> PagerFlag set \<Rightarrow> nat \<Rightarrow> scan_state \<Rightarrow> scan_state option" where
  "replay env flags 0 sc = Some sc"
| "replay env flags (Suc k) sc =
     (case replay env flags k sc of
        None \<Rightarrow> None
      | Some sc1 \<Rightarrow>
          (case display_line_scan env k flags sc1 of
             Some (Inr r) \<Rightarrow> if fst r = 0 then Some (snd r) else None
           | _ \<Rightarrow> None))"

text \<open>
  What a call of \<^verbatim>\<open>display_line\<close> for line \<open>n\<close> keeps: the agreement of
  \<^verbatim>\<open>max\<close> with the size of the array, and the continuation flags of the lines
  before \<open>n\<close>.
\<close>

definition scan_frame :: "nat \<Rightarrow> scan_state \<Rightarrow> scan_state \<Rightarrow> bool" where
  "scan_frame n sc sc' =
     (sc_max sc' = length (sc_info sc') \<and>
      take n (map l_continuation (sc_info sc')) = take n (map l_continuation (sc_info sc)))"

text \<open>The number of lines below \<open>i\<close> that are not continuations.\<close>

definition logical_below :: "Line list \<Rightarrow> nat \<Rightarrow> int" where
  "logical_below info i = int (length (filter (\<lambda>k. l_continuation (info ! k) = 0) [0..<i]))"

text \<open>
  A file of two lines for evaluation, read from an offset up to and including the
  next newline, a configuration without rules, a search pattern that matches nothing,
  and a window that is two columns wide.  \<open>rd_wide\<close> is the redraw data of a pager
  that showed the file in a wide window, with its second line on top.
\<close>

fun line_from :: "string \<Rightarrow> string" where
  "line_from [] = []"
| "line_from (c # s) = (if c = CHR 0x0A then [c] else c # line_from s)"

definition read_file :: "string \<Rightarrow> int \<Rightarrow> string option" where
  "read_file file off =
     (if off < 0 \<or> length file \<le> nat off then None
      else Some (line_from (drop (nat off) file)))"

definition file_ex :: string where
  "file_ex = [CHR ''a'', CHR ''b'', CHR ''c'', CHR 0x0A, CHR ''d'', CHR 0x0A]"

definition cfg_ex :: pager_config where
  "cfg_ex =
     \<lparr> c_HeaderColorPartial = False, c_ColorHdrList = [], c_ColorBodyList = [],
       c_ColorAttachList = [], c_QuoteRegex = None, c_Smileys = None,
       c_AttachmentMarker = e_AttachmentMarker env_ex,
       c_ProtectedHeaderMarker = e_ProtectedHeaderMarker env_ex,
       c_ColorQuote = (\<lambda>i. i), c_ColorQuoteUsed = 1 \<rparr>"

definition penv_ex :: "unit pager_env" where
  "penv_ex =
     \<lparr> p_cfg = cfg_ex, p_fmt = env_ex\<lparr> e_wrap_cols := (\<lambda>nowrap. 2) \<rparr>,
       p_read_line = read_file file_ex, p_search_re = (\<lambda>s notbol. None),
       p_LINES = 2, p_C_SmartWrap = False \<rparr>"

definition rd_wide :: PagerRedrawData where
  "rd_wide =
     \<lparr> rd_flags = {}, rd_lines = 0, rd_max_line = 3, rd_last_line = 2,
       rd_topline = 1, rd_has_types = {MUTT_TYPES}, rd_quote = quote_init,
       rd_search_compiled = True, rd_search_flag = {MUTT_SEARCH},
       rd_line_info = [(line_ex 0 MT_COLOR_HDEFAULT)\<lparr> l_search_cnt := 0 \<rparr>,
                       (line_ex 4 MT_COLOR_HDEFAULT)\<lparr> l_search_cnt := 0 \<rparr>,
                       line_ex 6 MT_COLOR_UNSET] \<rparr>"

text \<open>
  The same pager in a window that is one column wide.  With \<^verbatim>\<open>C_Markers\<close> set, a
  continuation line starts in column 1, behind its marker.
\<close>

definition penv_narrow :: "unit pager_env" where
  "penv_narrow =
     \<lparr> p_cfg = cfg_ex, p_fmt = env_ex\<lparr> e_wrap_cols := (\<lambda>nowrap. 1) \<rparr>,
       p_read_line = read_file file_ex, p_search_re = (\<lambda>s notbol. None),
       p_LINES = 2, p_C_SmartWrap = False \<rparr>"

text \<open>
  The data of the replay loop in that window when line \<open>i > 0\<close> is about to be
  scanned: all lines up to \<open>i\<close> have been scanned, line \<open>i\<close> is a continuation
  that starts at offset 1 of the file, and the slots behind it are fresh.
\<close>

definition narrow_inv :: "nat \<Rightarrow> PagerRedrawData \<Rightarrow> bool" where
  "narrow_inv i rd =
     (0 < i \<and> i < length (rd_line_info rd) \<and>
      rd_last_line rd = i \<and> rd_max_line rd = length (rd_line_info rd) \<and>
      l_offset (rd_line_info rd ! i) = 1 \<and> l_continuation (rd_line_info rd ! i) = 1 \<and>
      l_type (rd_line_info rd ! i) = MT_COLOR_HDEFAULT \<and>
      (\<forall>k. i < k \<and> k < length (rd_line_info rd) \<longrightarrow> rd_line_info rd ! k = line_new))"


section \<open>Properties of signature detection\<close>

lemma check_sig_count_run:
  "k \<le> n \<Longrightarrow> c + k \<le> 5 \<Longrightarrow>
   (\<forall>i<k. l_type (info ! (n - i)) = MT_COLOR_SIGNATURE) \<Longrightarrow>
   check_sig_count info n c = check_sig_count info (n - k) (c + k)"
proof (induction k arbitrary: n c)
  case 0
  then show ?case by simp
next
  case (Suc k)
  have sig: "l_type (info ! n) = MT_COLOR_SIGNATURE"
    using Suc.prems(3) by force
  have step: "check_sig_count info n c = check_sig_count info (n - 1) (c + 1)"
    using Suc.prems(1,2) sig
    by (subst check_sig_count.simps) (simp add: NUM_SIG_LINES_def)
  have "\<forall>i<k. l_type (info ! (n - 1 - i)) = MT_COLOR_SIGNATURE"
  proof (intro allI impI)
    fix i assume "i < k"
    then have "l_type (info ! (n - Suc i)) = MT_COLOR_SIGNATURE"
      using Suc.prems(3) by simp
    then show "l_type (info ! (n - 1 - i)) = MT_COLOR_SIGNATURE" by simp
  qed
  then have "check_sig_count info (n - 1) (c + 1) = check_sig_count info (n - 1 - k) (c + 1 + k)"
    using Suc.IH [of "n - 1" "c + 1"] Suc.prems(1,2) by simp
  with step show ?case by simp
qed

lemma check_sig_count_stop:
  "c > NUM_SIG_LINES \<or> n = 0 \<or> l_type (info ! n) \<noteq> MT_COLOR_SIGNATURE \<Longrightarrow>
   check_sig_count info n c = c"
  by (subst check_sig_count.simps) auto

lemma check_sig_blank_iff: "check_sig_blank s = (if \<exists>c\<in>set s. \<not> ISSPACE c then 0 else -1)"
  by (induction s) auto

lemma check_sig_count_ge: "c \<le> check_sig_count info n c"
proof (induction info n c rule: check_sig_count.induct)
  case (1 info n count)
  then show ?case
    by (subst check_sig_count.simps) (auto simp: NUM_SIG_LINES_def)
qed

lemma check_sig_count_le: "c \<le> 5 \<Longrightarrow> check_sig_count info n c \<le> 5"
proof (induction info n c rule: check_sig_count.induct)
  case (1 info n count)
  then show ?case
    by (subst check_sig_count.simps) (auto simp: NUM_SIG_LINES_def)
qed

lemma check_sig_count_full:
  "check_sig_count info n c = 5 \<Longrightarrow> c \<le> 5 \<Longrightarrow>
   5 - c \<le> n \<and> (\<forall>i<5 - c. l_type (info ! (n - i)) = MT_COLOR_SIGNATURE)"
proof (induction info n c rule: check_sig_count.induct)
  case (1 info n count)
  show ?case
  proof (cases "n > 0 \<and> count \<le> NUM_SIG_LINES")
    case False
    then have "check_sig_count info n count = count"
      by (subst check_sig_count.simps) auto
    with "1.prems" False show ?thesis by (auto simp: NUM_SIG_LINES_def)
  next
    case True
    show ?thesis
    proof (cases "l_type (info ! n) = MT_COLOR_SIGNATURE")
      case False
      with True have "check_sig_count info n count = count"
        by (subst check_sig_count.simps) auto
      with "1.prems" True show ?thesis by (auto simp: NUM_SIG_LINES_def)
    next
      case sig: True
      with True have eq: "check_sig_count info n count = check_sig_count info (n - 1) (count + 1)"
        by (subst check_sig_count.simps) auto
      have ih: "5 - (count + 1) \<le> n - 1 \<and>
                (\<forall>i<5 - (count + 1). l_type (info ! (n - 1 - i)) = MT_COLOR_SIGNATURE)"
        using "1.IH" [OF True] sig eq "1.prems" True by (auto simp: NUM_SIG_LINES_def)
      have "\<forall>i<5 - count. l_type (info ! (n - i)) = MT_COLOR_SIGNATURE"
      proof (intro allI impI)
        fix i assume i: "i < 5 - count"
        show "l_type (info ! (n - i)) = MT_COLOR_SIGNATURE"
        proof (cases i)
          case 0 then show ?thesis using sig by simp
        next
          case (Suc j)
          then have "j < 5 - (count + 1)" using i by simp
          then have "l_type (info ! (n - 1 - j)) = MT_COLOR_SIGNATURE" using ih by blast
          then show ?thesis using Suc by simp
        qed
      qed
      moreover have "5 - count \<le> n" using ih True by (auto simp: NUM_SIG_LINES_def)
      ultimately show ?thesis by blast
    qed
  qed
qed

lemma check_sig_eq:
  "check_sig s info n =
     (if n = 0 \<or> l_type (info ! n) \<noteq> MT_COLOR_SIGNATURE then -1
      else if 5 \<le> n \<and> (\<forall>i<5. l_type (info ! (n - i)) = MT_COLOR_SIGNATURE)
        then (if \<exists>c\<in>set s. \<not> ISSPACE c then 0 else -1)
      else 0)"
proof (cases "n = 0 \<or> l_type (info ! n) \<noteq> MT_COLOR_SIGNATURE")
  case True
  then have "check_sig_count info n 0 = 0"
    by (intro check_sig_count_stop) auto
  with True show ?thesis by (auto simp: check_sig_def)
next
  case False
  then have pos: "0 < n" and sig: "l_type (info ! n) = MT_COLOR_SIGNATURE" by auto
  have "check_sig_count info n 0 = check_sig_count info (n - 1) 1"
    using pos sig by (subst check_sig_count.simps) (simp add: NUM_SIG_LINES_def)
  then have nz: "check_sig_count info n 0 \<noteq> 0"
    using check_sig_count_ge [of 1 info "n - 1"] by simp
  show ?thesis
  proof (cases "5 \<le> n \<and> (\<forall>i<5. l_type (info ! (n - i)) = MT_COLOR_SIGNATURE)")
    case True
    then have "check_sig_count info n 0 = check_sig_count info (n - 5) (0 + 5)"
      by (intro check_sig_count_run) auto
    also have "\<dots> = 5"
      by (subst check_sig_count.simps) (simp add: NUM_SIG_LINES_def)
    finally show ?thesis
      using True False by (simp add: check_sig_def NUM_SIG_LINES_def check_sig_blank_iff)
  next
    case nrun: False
    have "check_sig_count info n 0 \<noteq> 5"
      using check_sig_count_full [of info n 0] nrun by auto
    then have "check_sig_count info n 0 \<le> 4"
      using check_sig_count_le [of 0 info n] by simp
    then show ?thesis
      using nz nrun False by (auto simp: check_sig_def NUM_SIG_LINES_def Let_def)
  qed
qed

lemma resolve_types_sig_branch:
  assumes m: "0 < m" "m < length info"
    and hd: "\<not> ISHEADER (l_type (info ! (m - 1)))"
      "check_marker (c_ProtectedHeaderMarker cfg) raw \<noteq> 0"
    and esc: "take 4 raw \<noteq> [CHR 0x1B, CHR ''['', CHR ''0'', CHR ''m'']"
    and att: "check_marker (c_AttachmentMarker cfg) raw \<noteq> 0"
    and del: "buf \<noteq> ''-- '' @ [CHR 0x0A]" "buf \<noteq> ''-- '' @ [CHR 0x0D, CHR 0x0A]"
  shows "if check_sig buf info (m - 1) = 0
         then resolve_types cfg buf raw m last_n q_classify info qs =
                Some (Inr (info[m := (info ! m)\<lparr> l_type := MT_COLOR_SIGNATURE \<rparr>], qs))
         else \<forall>r. resolve_types cfg buf raw m last_n q_classify info qs = Some (Inr r) \<longrightarrow>
                l_type (fst r ! m) = MT_COLOR_QUOTED \<or> l_type (fst r ! m) = MT_COLOR_NORMAL"
proof (cases "check_sig buf info (m - 1) = 0")
  case True
  then have "resolve_type cfg buf raw m last_n q_classify info qs =
      Some (info[m := (info ! m)\<lparr> l_type := MT_COLOR_SIGNATURE \<rparr>], qs)"
    using assms by (simp add: resolve_type_def)
  then show ?thesis using True m by (simp add: resolve_types_def)
next
  case False
  have rt: "\<And>r. resolve_type cfg buf raw m last_n q_classify info qs = Some r \<Longrightarrow>
      length (fst r) = length info \<and>
      (l_type (fst r ! m) = MT_COLOR_QUOTED \<or> l_type (fst r ! m) = MT_COLOR_NORMAL)"
    using assms False
    by (auto simp: resolve_type_def split: option.splits if_splits bind_splits)
  have "\<And>r. resolve_types cfg buf raw m last_n q_classify info qs = Some (Inr r) \<Longrightarrow>
      l_type (fst r ! m) = MT_COLOR_QUOTED \<or> l_type (fst r ! m) = MT_COLOR_NORMAL"
  proof -
    fix r assume a: "resolve_types cfg buf raw m last_n q_classify info qs = Some (Inr r)"
    then obtain r0 where r0: "resolve_type cfg buf raw m last_n q_classify info qs = Some r0"
      by (auto simp: resolve_types_def split: bind_splits)
    from rt [OF r0] have l: "m < length (fst r0)" and
      t: "l_type (fst r0 ! m) = MT_COLOR_QUOTED \<or> l_type (fst r0 ! m) = MT_COLOR_NORMAL"
      using m by simp_all
    from a r0 t l show "l_type (fst r ! m) = MT_COLOR_QUOTED \<or> l_type (fst r ! m) = MT_COLOR_NORMAL"
      by (auto simp: resolve_types_def Let_def split: bind_splits sum.splits if_splits)
  qed
  with False show ?thesis by simp
qed

text \<open>
  C1 (as amended).  \<^verbatim>\<open>check_sig s info n\<close> is called with the text \<open>s\<close> of the
  candidate line and the index \<open>n\<close> of the line above it, and the candidate qualifies
  as Signature when the result is \<open>0\<close>.  The test fails when line \<open>n\<close> is line 0 or is
  not typed Signature.  Otherwise it counts the Signature lines \<open>n, n - 1, \<dots>\<close> above
  line 0; when the five lines \<open>n \<dots> n - 4\<close> are all Signature (the count exceeds
  \<^verbatim>\<open>NUM_SIG_LINES\<close> = 4), the candidate qualifies exactly when its text holds a
  character that is not whitespace; with a shorter run the candidate always qualifies.

  In \<^verbatim>\<open>resolve_types\<close>, a line \<open>m > 0\<close> reaches this test when the line above it is
  not a header line, its raw text does not start with \<^verbatim>\<open>ESC [ 0 m\<close> or with the
  protected-header or the attachment marker, and its text is not the delimiter line.
  Such a line is typed Signature when line \<open>m - 1\<close> is a Signature line other than
  line 0 and either the five lines \<open>m - 1 \<dots> m - 5\<close> are not all Signature lines above
  line 0 or the text of line \<open>m\<close> holds a character that is not whitespace; no other
  line is changed.  Otherwise the line is typed Quoted or Normal when the call returns.
\<close>

theorem check_sig_spec:
  "check_sig s info n =
     (if n = 0 \<or> l_type (info ! n) \<noteq> MT_COLOR_SIGNATURE then -1
      else if 5 \<le> n \<and> (\<forall>i<5. l_type (info ! (n - i)) = MT_COLOR_SIGNATURE)
        then (if \<exists>c\<in>set s. \<not> ISSPACE c then 0 else -1)
      else 0) \<and>
   (0 < m \<and> m < length info \<and> \<not> ISHEADER (l_type (info ! (m - 1))) \<and>
    check_marker (c_ProtectedHeaderMarker cfg) raw \<noteq> 0 \<and>
    take 4 raw \<noteq> [CHR 0x1B, CHR ''['', CHR ''0'', CHR ''m''] \<and>
    check_marker (c_AttachmentMarker cfg) raw \<noteq> 0 \<and>
    buf \<noteq> ''-- '' @ [CHR 0x0A] \<and> buf \<noteq> ''-- '' @ [CHR 0x0D, CHR 0x0A] \<longrightarrow>
    (if m - 1 \<noteq> 0 \<and> l_type (info ! (m - 1)) = MT_COLOR_SIGNATURE \<and>
        (5 \<le> m - 1 \<and> (\<forall>i<5. l_type (info ! (m - 1 - i)) = MT_COLOR_SIGNATURE) \<longrightarrow>
         (\<exists>c\<in>set buf. \<not> ISSPACE c))
     then resolve_types cfg buf raw m last_n q_classify info qs =
            Some (Inr (info[m := (info ! m)\<lparr> l_type := MT_COLOR_SIGNATURE \<rparr>], qs))
     else \<forall>r. resolve_types cfg buf raw m last_n q_classify info qs = Some (Inr r) \<longrightarrow>
            l_type (fst r ! m) = MT_COLOR_QUOTED \<or> l_type (fst r ! m) = MT_COLOR_NORMAL))"
proof (intro conjI impI)
  show "check_sig s info n =
     (if n = 0 \<or> l_type (info ! n) \<noteq> MT_COLOR_SIGNATURE then -1
      else if 5 \<le> n \<and> (\<forall>i<5. l_type (info ! (n - i)) = MT_COLOR_SIGNATURE)
        then (if \<exists>c\<in>set s. \<not> ISSPACE c then 0 else -1)
      else 0)"
    by (rule check_sig_eq)
next
  assume a: "0 < m \<and> m < length info \<and> \<not> ISHEADER (l_type (info ! (m - 1))) \<and>
    check_marker (c_ProtectedHeaderMarker cfg) raw \<noteq> 0 \<and>
    take 4 raw \<noteq> [CHR 0x1B, CHR ''['', CHR ''0'', CHR ''m''] \<and>
    check_marker (c_AttachmentMarker cfg) raw \<noteq> 0 \<and>
    buf \<noteq> ''-- '' @ [CHR 0x0A] \<and> buf \<noteq> ''-- '' @ [CHR 0x0D, CHR 0x0A]"
  have c: "(check_sig buf info (m - 1) = 0) =
      (m - 1 \<noteq> 0 \<and> l_type (info ! (m - 1)) = MT_COLOR_SIGNATURE \<and>
        (5 \<le> m - 1 \<and> (\<forall>i<5. l_type (info ! (m - 1 - i)) = MT_COLOR_SIGNATURE) \<longrightarrow>
         (\<exists>c\<in>set buf. \<not> ISSPACE c)))"
    by (subst check_sig_eq) auto
  from a have "if check_sig buf info (m - 1) = 0
         then resolve_types cfg buf raw m last_n q_classify info qs =
                Some (Inr (info[m := (info ! m)\<lparr> l_type := MT_COLOR_SIGNATURE \<rparr>], qs))
         else \<forall>r. resolve_types cfg buf raw m last_n q_classify info qs = Some (Inr r) \<longrightarrow>
                l_type (fst r ! m) = MT_COLOR_QUOTED \<or> l_type (fst r ! m) = MT_COLOR_NORMAL"
    by (intro resolve_types_sig_branch) simp_all
  then show "if m - 1 \<noteq> 0 \<and> l_type (info ! (m - 1)) = MT_COLOR_SIGNATURE \<and>
        (5 \<le> m - 1 \<and> (\<forall>i<5. l_type (info ! (m - 1 - i)) = MT_COLOR_SIGNATURE) \<longrightarrow>
         (\<exists>c\<in>set buf. \<not> ISSPACE c))
     then resolve_types cfg buf raw m last_n q_classify info qs =
            Some (Inr (info[m := (info ! m)\<lparr> l_type := MT_COLOR_SIGNATURE \<rparr>], qs))
     else \<forall>r. resolve_types cfg buf raw m last_n q_classify info qs = Some (Inr r) \<longrightarrow>
            l_type (fst r ! m) = MT_COLOR_QUOTED \<or> l_type (fst r ! m) = MT_COLOR_NORMAL"
    unfolding c .
qed

lemma sig_lines_ex_run: "\<forall>i<5. l_type (sig_lines_ex ! (5 - i)) = MT_COLOR_SIGNATURE"
proof (intro allI impI)
  fix i :: nat assume "i < 5"
  then consider "i = 0" | "i = 1" | "i = 2" | "i = 3" | "i = 4" by linarith
  then show "l_type (sig_lines_ex ! (5 - i)) = MT_COLOR_SIGNATURE"
    by cases (simp_all add: sig_lines_ex_def sig_block_ex_def line_ex_def)
qed

theorem check_sig_spec_witness:
  "check_sig (''Jane Doe'' @ [CHR 0x0A]) sig_lines_ex 5 = 0 \<and>
   check_sig ('' '' @ [CHR 0x0A]) sig_lines_ex 5 = -1 \<and>
   resolve_types cfg_ex (''Jane Doe'' @ [CHR 0x0A]) (''Jane Doe'' @ [CHR 0x0A]) 6 7 False
       sig_lines_ex quote_init =
     Some (Inr (sig_lines_ex[6 := line_ex 33 MT_COLOR_SIGNATURE], quote_init)) \<and>
   resolve_types cfg_ex ('' '' @ [CHR 0x0A]) ('' '' @ [CHR 0x0A]) 6 7 False
       sig_lines_ex quote_init =
     Some (Inr (sig_lines_ex[6 := line_ex 33 MT_COLOR_NORMAL], quote_init))"
proof -
  let ?t = "''Jane Doe'' @ [CHR 0x0A]"
  let ?b = "'' '' @ [CHR 0x0A]"
  have sig: "l_type (sig_lines_ex ! 5) = MT_COLOR_SIGNATURE"
    by (simp add: sig_lines_ex_def sig_block_ex_def line_ex_def)
  have chars: "\<exists>c\<in>set ?t. \<not> ISSPACE c" "\<not> (\<exists>c\<in>set ?b. \<not> ISSPACE c)"
    by (simp_all add: ISSPACE_def)
  have reach: "(6::nat) - 1 = 5" "6 < length sig_lines_ex"
    "\<not> ISHEADER (l_type (sig_lines_ex ! 5))"
    "check_marker (c_ProtectedHeaderMarker cfg_ex) ?t \<noteq> 0"
    "check_marker (c_AttachmentMarker cfg_ex) ?t \<noteq> 0"
    "sig_lines_ex ! 6 = line_ex 33 MT_COLOR_UNSET"
    by (simp_all add: sig_lines_ex_def sig_block_ex_def line_ex_def ISHEADER_def cfg_ex_def
          env_ex_def)
  have blank: "resolve_types cfg_ex ?b ?b 6 7 False sig_lines_ex quote_init =
     Some (Inr (sig_lines_ex[6 := line_ex 33 MT_COLOR_NORMAL], quote_init))"
    by code_simp
  show ?thesis
    using check_sig_spec [of ?t sig_lines_ex 5 6 cfg_ex ?t ?t 7 False quote_init]
      check_sig_spec [of ?b sig_lines_ex 5 6 cfg_ex ?t ?t 7 False quote_init]
      sig chars reach sig_lines_ex_run blank
    by (simp add: line_ex_def)
qed

text \<open>
  C1 as stated fails: with five Signature lines above, a line with text qualifies and
  is typed Signature, and a blank line does not qualify and is typed Normal.
\<close>

theorem check_sig_counterexample:
  "check_sig (''Jane Doe'' @ [CHR 0x0A]) sig_lines_ex 5 = 0 \<and>
   check_sig ('' '' @ [CHR 0x0A]) sig_lines_ex 5 = -1 \<and>
   resolve_types cfg_ex (''Jane Doe'' @ [CHR 0x0A]) (''Jane Doe'' @ [CHR 0x0A]) 6 7 False
       sig_lines_ex quote_init =
     Some (Inr (sig_lines_ex[6 := line_ex 33 MT_COLOR_SIGNATURE], quote_init)) \<and>
   resolve_types cfg_ex ('' '' @ [CHR 0x0A]) ('' '' @ [CHR 0x0A]) 6 7 False
       sig_lines_ex quote_init =
     Some (Inr (sig_lines_ex[6 := line_ex 33 MT_COLOR_NORMAL], quote_init))"
  by code_simp

section \<open>Properties of quote detection\<close>

text \<open>
  C7 (as amended).  For a line that matches the quote pattern, \<^verbatim>\<open>mutt_is_quote_line\<close>
  reports a quote with the match of the quote pattern when no smiley pattern is set or
  the smiley pattern matches nowhere in the line.  When the smiley pattern matches at
  offset 0 the line is not a quote.  When it matches at an offset \<open>so > 0\<close>, anywhere
  in the line, the line is a quote exactly when the quote pattern matches the first
  \<open>so\<close> bytes of the line, and the match reported is that of the re-test.
\<close>

theorem mutt_is_quote_line_smiley:
  assumes "qr line False = Some pmatch"
  shows "mutt_is_quote_line (Some qr) C_Smileys line =
           (case C_Smileys of
              None \<Rightarrow> Some pmatch
            | Some sr \<Rightarrow>
                (case sr line False of
                   None \<Rightarrow> Some pmatch
                 | Some (so, eo) \<Rightarrow> if so = 0 then None else qr (take so line) False))"
  using assms by (auto simp: mutt_is_quote_line_def split: option.splits)

theorem mutt_is_quote_line_smiley_witness:
  "mutt_is_quote_line (Some quote_rx_ex) (Some smiley_rx_ex) ''> ok :-)'' = Some (0, 1) \<and>
   mutt_is_quote_line (Some quote_rx_ex) (Some smiley_rx_ex) '':-) ok'' = None \<and>
   mutt_is_quote_line (Some quote_rx_ex) None '':-) ok'' = Some (0, 1)"
proof -
  have q1: "quote_rx_ex ''> ok :-)'' False = Some (0, 1)"
    and q2: "quote_rx_ex '':-) ok'' False = Some (0, 1)"
    by (simp_all add: quote_rx_ex_def)
  have s1: "smiley_rx_ex ''> ok :-)'' False = Some (5, 8)"
    and s2: "smiley_rx_ex '':-) ok'' False = Some (0, 3)"
    by (simp_all add: smiley_rx_ex_def)
  have q3: "quote_rx_ex (take 5 ''> ok :-)'') False = Some (0, 1)"
    by (simp add: quote_rx_ex_def)
  show ?thesis
    using mutt_is_quote_line_smiley [of quote_rx_ex "''> ok :-)''" "(0, 1)" "Some smiley_rx_ex"]
      mutt_is_quote_line_smiley [of quote_rx_ex "'':-) ok''" "(0, 1)" "Some smiley_rx_ex"]
      mutt_is_quote_line_smiley [of quote_rx_ex "'':-) ok''" "(0, 1)" None] q1 q2 s1 s2 q3
    by simp
qed

text \<open>
  C7 as stated fails: a smiley at offset 0 does not leave the quote classification
  alone, it cancels it.
\<close>

theorem mutt_is_quote_line_counterexample:
  "quote_rx_ex '':-) ok'' False = Some (0, 1) \<and>
   smiley_rx_ex '':-) ok'' False = Some (0, 3) \<and>
   mutt_is_quote_line (Some quote_rx_ex) (Some smiley_rx_ex) '':-) ok'' = None"
  by (simp add: mutt_is_quote_line_def quote_rx_ex_def smiley_rx_ex_def)

section \<open>Properties of the invalidation\<close>

lemma nth_map_upto:
  "i < length xs \<Longrightarrow> map_upto k f xs ! i = (if i < k then f (xs ! i) else xs ! i)"
  by (auto simp: map_upto_def nth_append min_def)

lemma length_map_upto: "length (map_upto k f xs) = length xs"
  by (simp add: map_upto_def)

text \<open>
  C8 (as amended).  The reset run for a reflow forgets the byte offsets.  Without
  \<^verbatim>\<open>MUTT_PAGER_RETWINCH\<close> it assigns, in every slot below \<^verbatim>\<open>max_line\<close>, offset 0,
  type unset, continuation 0, chunk count 0, search count \<open>-1\<close> and a null quote
  class; it cuts the chunk array to its first element, whose content stays; it frees
  the search chunks if a search pattern is compiled and keeps them otherwise; it keeps
  \<^verbatim>\<open>is_cont_hdr\<close>.  It changes no slot at or above \<^verbatim>\<open>max_line\<close>, and no slot at
  all with \<^verbatim>\<open>MUTT_PAGER_RETWINCH\<close>.  The invalidation run before a new search pattern
  is compiled changes a slot only when a pattern was compiled before and the slot is
  below \<^verbatim>\<open>last_line\<close>: it frees the search chunks and sets the search count to
  \<open>-1\<close>, and leaves every other field of the slot (offset, type, continuation flag,
  style chunks) as it was.  Neither run changes the number of slots.
\<close>

theorem invalidation_frame:
  assumes "i < length (rd_line_info rd)"
  shows "rd_line_info (redraw_flow_reset rd) ! i =
           (if MUTT_PAGER_RETWINCH \<notin> rd_flags rd \<and> i < rd_max_line rd
            then \<lparr> l_offset = 0, l_type = MT_COLOR_UNSET, l_continuation = 0, l_chunks = 0,
                   l_search_cnt = -1,
                   l_syntax = take 1 (l_syntax (rd_line_info rd ! i)),
                   l_search = (if rd_search_compiled rd then None
                               else l_search (rd_line_info rd ! i)),
                   l_quote = None,
                   l_is_cont_hdr = l_is_cont_hdr (rd_line_info rd ! i) \<rparr>
            else rd_line_info rd ! i) \<and>
         rd_line_info (search_invalidate rd) ! i =
           (if rd_search_compiled rd \<and> i < rd_last_line rd
            then (rd_line_info rd ! i)\<lparr> l_search := None, l_search_cnt := -1 \<rparr>
            else rd_line_info rd ! i) \<and>
         length (rd_line_info (redraw_flow_reset rd)) = length (rd_line_info rd) \<and>
         length (rd_line_info (search_invalidate rd)) = length (rd_line_info rd)"
  using assms
  by (cases "rd_line_info rd ! i")
     (simp add: redraw_flow_reset_def search_invalidate_def nth_map_upto length_map_upto
        reset_line_def reset_search_def)

theorem invalidation_frame_witness:
  "rd_line_info rd_ex ! 1 =
     \<lparr> l_offset = 10, l_type = MT_COLOR_NORMAL, l_continuation = 0, l_chunks = 2,
       l_search_cnt = 1,
       l_syntax = [\<lparr> s_color = 3, s_first = 0, s_last = 2 \<rparr>,
                   \<lparr> s_color = 5, s_first = 4, s_last = 6 \<rparr>],
       l_search = Some [\<lparr> s_color = 0, s_first = 4, s_last = 6 \<rparr>],
       l_quote = None, l_is_cont_hdr = 0 \<rparr> \<and>
   rd_line_info (redraw_flow_reset rd_ex) ! 1 =
     \<lparr> l_offset = 0, l_type = MT_COLOR_UNSET, l_continuation = 0, l_chunks = 0,
       l_search_cnt = -1,
       l_syntax = [\<lparr> s_color = 3, s_first = 0, s_last = 2 \<rparr>],
       l_search = None, l_quote = None, l_is_cont_hdr = 0 \<rparr> \<and>
   rd_line_info (search_invalidate rd_ex) ! 1 =
     \<lparr> l_offset = 10, l_type = MT_COLOR_NORMAL, l_continuation = 0, l_chunks = 2,
       l_search_cnt = -1,
       l_syntax = [\<lparr> s_color = 3, s_first = 0, s_last = 2 \<rparr>,
                   \<lparr> s_color = 5, s_first = 4, s_last = 6 \<rparr>],
       l_search = None, l_quote = None, l_is_cont_hdr = 0 \<rparr> \<and>
   rd_line_info (redraw_flow_reset rd_ex) ! 2 = line_ex 0 MT_COLOR_UNSET \<and>
   rd_line_info (search_invalidate rd_ex) ! 2 = line_ex 25 MT_COLOR_UNSET"
proof -
  have len: "1 < length (rd_line_info rd_ex)" "2 < length (rd_line_info rd_ex)"
    by (simp_all add: rd_ex_def)
  have pre: "MUTT_PAGER_RETWINCH \<notin> rd_flags rd_ex" "rd_max_line rd_ex = 3"
    "rd_search_compiled rd_ex" "rd_last_line rd_ex = 2"
    by (simp_all add: rd_ex_def)
  have old: "rd_line_info rd_ex ! 1 =
      \<lparr> l_offset = 10, l_type = MT_COLOR_NORMAL, l_continuation = 0, l_chunks = 2,
        l_search_cnt = 1,
        l_syntax = [\<lparr> s_color = 3, s_first = 0, s_last = 2 \<rparr>,
                    \<lparr> s_color = 5, s_first = 4, s_last = 6 \<rparr>],
        l_search = Some [\<lparr> s_color = 0, s_first = 4, s_last = 6 \<rparr>],
        l_quote = None, l_is_cont_hdr = 0 \<rparr>"
    "rd_line_info rd_ex ! 2 = line_ex 25 MT_COLOR_UNSET"
    by (simp_all add: rd_ex_def line_ex_def)
  show ?thesis
    using invalidation_frame [OF len(1)] invalidation_frame [OF len(2)] pre old
    by (simp add: line_ex_def)
qed

text \<open>
  C8 as stated fails: the reflow reset forgets the byte offset of a line that was
  scanned before (a slot below \<^verbatim>\<open>last_line\<close>).
\<close>

theorem invalidation_offset_counterexample:
  "1 < rd_last_line rd_ex \<and> l_offset (rd_line_info rd_ex ! 1) = 10 \<and>
   l_offset (rd_line_info (redraw_flow_reset rd_ex) ! 1) = 0"
  by (simp add: rd_ex_def line_ex_def redraw_flow_reset_def map_upto_def reset_line_def)

section \<open>Properties of the highlight passes\<close>

text \<open>
  C4 (fails on the code).  With the rules \<^verbatim>\<open>[0-9]+\<close> and \<^verbatim>\<open>x*\<close> in this order and
  the line \<^verbatim>\<open>12\<close>, the first iteration records the chunk \<open>[0, 2)\<close> for the first
  rule; the second rule then matches the empty string, which sets \<^verbatim>\<open>null_rx\<close> again,
  so the offset advances by one byte instead of to the end of the kept match, and the
  second iteration records \<open>[1, 2)\<close>: the two chunks overlap.
\<close>

theorem body_patterns_overlap:
  "map_option (map_sum id snd) (body_patterns rules_overlap_ex ''12'' syntax0) =
     Some (Inr (2, [\<lparr> s_color = 1, s_first = 0, s_last = 2 \<rparr>,
                    \<lparr> s_color = 1, s_first = 1, s_last = 2 \<rparr>]))"
  by code_simp

lemma short_of_small: "- 32768 \<le> x \<Longrightarrow> x \<le> 32767 \<Longrightarrow> short_of x = x"
  by (simp add: short_of_def)

lemma short_of_wrap: "short_of 32768 = - 32768"
  by (simp add: short_of_def)

lemma attach_rules_any_step:
  assumes "k < n" and "k < 32767" and "length syn = max 1 k"
  shows "attach_rules (replicate n c) k rules_any_ex
           \<lparr> r_found = False, r_null_rx = False, r_i = i, r_chunks = int k,
             r_syntax = syn, r_break = False \<rparr> =
         Inr \<lparr> r_found = True, r_null_rx = False, r_i = int k, r_chunks = 1 + int k,
               r_syntax = (realloc_syntax syn (Suc k))
                            [k := \<lparr> s_color = 1, s_first = int k, s_last = 1 + int k \<rparr>],
               r_break = False \<rparr>"
proof -
  have sh: "short_of (int k + 1) = 1 + int k"
    using assms(2) short_of_small [of "int k + 1"] by simp
  have re: "nat (1 + int k) = Suc k" "k = 0 \<Longrightarrow> realloc_syntax syn (Suc 0) = syn"
    using assms(3) by (auto simp: realloc_syntax_def nat_add_distrib)
  have len: "length (realloc_syntax syn (Suc k)) = Suc k"
    using assms(3) by (auto simp: realloc_syntax_def)
  have m: "rx_any_char (drop k (replicate n c)) (k \<noteq> 0) = Some (0, 1)"
    using assms(1) by (simp add: rx_any_char_def)
  have "attach_rule (replicate n c) k
          \<lparr> cl_regex = rx_any_char, cl_pair = 1, cl_stop_matching = False \<rparr>
          \<lparr> r_found = False, r_null_rx = False, r_i = i, r_chunks = int k,
            r_syntax = syn, r_break = False \<rparr> =
        record_match k 1 (0, 1)
          \<lparr> r_found = False, r_null_rx = False, r_i = i, r_chunks = int k,
            r_syntax = syn, r_break = False \<rparr> (1 + int k) (realloc_syntax syn (Suc k))"
    unfolding attach_rule_def using assms(1) by (simp add: rx_any_char_def sh re Let_def)
  also have "\<dots> = Inr \<lparr> r_found = True, r_null_rx = False, r_i = int k, r_chunks = 1 + int k,
               r_syntax = (realloc_syntax syn (Suc k))
                            [k := \<lparr> s_color = 1, s_first = int k, s_last = 1 + int k \<rparr>],
               r_break = False \<rparr>"
    using len by (simp add: record_match_def Let_def)
  finally show ?thesis
    by (simp add: rules_any_ex_def)
qed

lemma attach_rules_any_wrap:
  assumes "32767 < n" 
  shows "attach_rules (replicate n c) 32767 rules_any_ex
           \<lparr> r_found = False, r_null_rx = False, r_i = i, r_chunks = 32767,
             r_syntax = syn, r_break = False \<rparr> = Inl OutOfBounds"
  using assms
  by (simp add: rules_any_ex_def attach_rule_def rx_any_char_def short_of_wrap record_match_def Let_def)

lemma attach_loop_any_overflow:
  assumes "32767 < n"
  shows "k \<le> 32767 \<Longrightarrow> d = 32767 - k \<Longrightarrow> length syn = max 1 k \<Longrightarrow>
         attach_loop (replicate n c) rules_any_ex k i (int k) syn = Some (Inl OutOfBounds)"
proof (induction d arbitrary: k i syn)
  case 0
  then have k: "k = 32767" by simp
  show ?case
    unfolding k
    apply (subst attach_loop.simps)
    using assms attach_rules_any_wrap [OF assms, of c i syn]
    apply simp
    done
next
  case (Suc d)
  then have k: "k < 32767" and kn: "k < n" using assms by auto
  let ?syn = "(realloc_syntax syn (Suc k))[k := \<lparr> s_color = 1, s_first = int k, s_last = 1 + int k \<rparr>]"
  have len: "length ?syn = max 1 (Suc k)"
    using Suc.prems(3) by (auto simp: realloc_syntax_def)
  have last: "s_last (?syn ! k) = 1 + int k"
    using Suc.prems(3) by (auto simp: realloc_syntax_def)
  have "attach_loop (replicate n c) rules_any_ex k i (int k) syn =
        attach_loop (replicate n c) rules_any_ex (Suc k) (int k) (int (Suc k)) ?syn"
    apply (subst attach_loop.simps)
    using kn attach_rules_any_step [OF kn k Suc.prems(3), of c i] last
    apply (simp add: nat_add_distrib)
    done
  also have "\<dots> = Some (Inl OutOfBounds)"
    using Suc.prems k by (intro Suc.IH len) auto
  finally show ?case .
qed

text \<open>
  C5 (fails on the code).  The attachment pass has no cap: on a line of 32768
  characters with a rule that matches every single character, the chunk counter is
  incremented past \<^verbatim>\<open>SHRT_MAX\<close>, wraps to \<open>-32768\<close>, and the chunk is written at
  index \<open>-32769\<close>, outside the array.
\<close>

theorem attachment_patterns_no_cap:
  "attachment_patterns rules_any_ex (replicate 32768 (CHR ''a'')) syntax0 = Some (Inl OutOfBounds)"
proof -
  have "mask_newline (replicate 32768 (CHR ''a'')) = replicate 32768 (CHR ''a'')"
    by (simp add: mask_newline_def)
  then show ?thesis
    using attach_loop_any_overflow [of 32768 0 32767 syntax0 "CHR ''a''" 0]
    by (simp add: attachment_patterns_def syntax0_def)
qed

section \<open>Properties of the escape normalizer and the line formatter\<close>



lemma fl_skip_ansi_none:
  "\<not> (byte_at buf ch = CHR 0x1B \<and> byte_at buf (ch + 1) = CHR ''['') \<Longrightarrow>
   fl_skip_ansi allow buf cnt ch pa out = (ch, pa, out)"
  by (subst fl_skip_ansi.simps) auto

lemma fl_skip_marker_none:
  "\<not> (byte_at buf ch = CHR 0x1B \<and> byte_at buf (ch + 1) = CHR '']'') \<Longrightarrow>
   fl_skip_marker am pm buf cnt ch = ch"
  by (subst fl_skip_marker.simps) auto




text \<open>
  C6 (fails on the code).  The two bytes \<open>0xCD 0xB8\<close> encode U+0378, which is not
  printable.  \<^verbatim>\<open>format_line\<close> draws one \<^verbatim>\<open>ReplacementChar\<close> and consumes both
  bytes, but the last branch adds the byte length \<open>k\<close> to the column, so the column
  counter is 2 after one glyph, not 1.
\<close>

theorem format_line_replacement_columns:
  "map_option (\<lambda>st. (f_ch st, f_col st, f_out st))
     (format_line env_ex [line_ex 0 MT_COLOR_NORMAL] 0 [CHR 0xCD, CHR 0xB8] {} (Some ansi0) 2) =
   Some (2, 2, [ResolveColor 0 {} ansi0, AddCh 63])"
proof -
  let ?buf = "[CHR 0xCD, CHR 0xB8]"
  let ?st0 = "\<lparr> f_ch = 0, f_vch = 0, f_col = 0, f_space = -1, f_special = {},
               f_last_special = None, f_mbstate = (), f_pa = Some ansi0, f_out = [] \<rparr>"
  define st1 :: "unit fl_state" where
    "st1 = \<lparr> f_ch = 2, f_vch = 2, f_col = 2, f_space = -1, f_special = {},
             f_last_special = Some {}, f_mbstate = (), f_pa = Some ansi0,
             f_out = [ResolveColor 0 {} ansi0, AddCh 63] \<rparr>"
  have sk1: "fl_skip_ansi (e_C_AllowAnsi env_ex) ?buf 2 0 (Some ansi0) [] = (0, Some ansi0, [])"
    by (rule fl_skip_ansi_none) (simp add: byte_at_def)
  have sk2: "fl_skip_marker (e_AttachmentMarker env_ex) (e_ProtectedHeaderMarker env_ex) ?buf 2 0 = 0"
    by (rule fl_skip_marker_none) (simp add: byte_at_def)
  have dec0: "decode env_ex () ?buf 2 0 = (MB_CHAR 2 888, ())"
    by (simp add: decode_def env_ex_def mbrtowc_utf8_def cont_byte_def)
  have env: "\<not> e_IsWPrint env_ex 888" "e_CharsetIsUtf8 env_ex" "\<not> e_display_corrupting env_ex 888"
    "e_ReplacementChar env_ex = 63" "e_mbs0 env_ex = ()"
    by (simp_all add: env_ex_def)
  have res: "fl_resolve env_ex {} ?st0 =
      ?st0\<lparr> f_out := [ResolveColor 0 {} ansi0], f_last_special := Some {} \<rparr>"
    by (simp add: fl_resolve_def resolve_color_ansi_def ansi0_def)
  have em: "fl_emit env_ex 80 (?st0\<lparr> f_out := [ResolveColor 0 {} ansi0], f_last_special := Some {} \<rparr>) 888 2 =
      (False, st1)"
    by (simp add: fl_emit_def env emit_def advance_def st1_def)
  have step: "fl_step env_ex {} ?buf 2 80 ?st0 = Some (False, st1)"
    using em by (simp add: fl_step_def sk1 sk2 dec0 env res Let_def)
  have fin: "fl_loop env_ex {} ?buf 2 80 st1 = Some st1"
    by (subst fl_loop.simps) (simp add: st1_def)
  have "fl_loop env_ex {} ?buf 2 80 ?st0 = Some st1"
    by (subst fl_loop.simps) (simp add: step fin)
  moreover have "check_marker (e_AttachmentMarker env_ex) ?buf \<noteq> 0"
    by (simp add: env_ex_def)
  moreover have "e_wrap_cols env_ex False = 80" "e_C_Markers env_ex" "l_continuation (line_ex 0 MT_COLOR_NORMAL) = 0"
    by (simp_all add: env_ex_def line_ex_def)
  ultimately show ?thesis
    by (simp add: format_line_def env st1_def)
qed

section \<open>Reflow keeps the logical top line\<close>

lemma conts_update:
  "l_continuation l = l_continuation (info ! i) \<Longrightarrow>
   map l_continuation (info[i := l]) = map l_continuation info"
  by (cases "i < length info") (simp_all add: map_update list_update_same_conv list_update_beyond)

lemma conts_recolor_header:
  "map l_continuation (recolor_header t c k info) = map l_continuation info"
  by (induction k arbitrary: info) (simp_all add: conts_update set_color0_def)

lemma conts_header_rules:
  "map l_continuation (fst (header_rules rules buf n info)) = map l_continuation info"
  by (induction rules) (simp_all add: Let_def conts_update conts_recolor_header set_color0_def)

lemma conts_resolve_header:
  "map l_continuation (fst (resolve_header cfg buf n info)) = map l_continuation info"
  by (simp add: resolve_header_def Let_def conts_update conts_header_rules set_color0_def)

lemma conts_resolve_header':
  "resolve_header cfg buf n info = (x, b) \<Longrightarrow> map l_continuation x = map l_continuation info"
  using conts_resolve_header [of cfg buf n info] by simp

lemma conts_sig_scan:
  "map l_continuation (sig_scan buf n last_n i info) = map l_continuation info"
proof (induction buf n last_n i info rule: sig_scan.induct)
  case (1 buf n last_n i info)
  show ?case
  proof (cases "i < last_n \<and> check_sig buf info (i - 1) = 0 \<and>
         (l_type (info ! i) = MT_COLOR_NORMAL \<or> l_type (info ! i) = MT_COLOR_QUOTED \<or>
          l_type (info ! i) = MT_COLOR_HEADER)")
    case True
    show ?thesis
      apply (subst sig_scan.simps)
      apply (simp only: True if_True Let_def simp_thms)
      apply (subst 1 [OF True refl])
      apply (simp add: conts_update)
      done
  next
    case False
    show ?thesis
      apply (subst sig_scan.simps)
      apply (simp only: False if_False)
      done
  qed
qed

lemma conts_resolve_type:
  "resolve_type cfg buf raw n last_n q info qs = Some r \<Longrightarrow>
   map l_continuation (fst r) = map l_continuation info"
  by (auto simp: resolve_type_def conts_update conts_sig_scan
           dest: conts_resolve_header'
           split: if_splits prod.splits option.splits bind_splits)

lemma conts_resolve_types:
  "resolve_types cfg buf raw n last_n q info qs = Some (Inr r) \<Longrightarrow>
   map l_continuation (fst r) = map l_continuation info"
  by (auto simp: resolve_types_def Let_def conts_update dest!: conts_resolve_type
           split: if_splits prod.splits option.splits bind_splits sum.splits)

lemma conts_race_types:
  "map l_continuation (race_types n last_n m info) = map l_continuation info"
proof (induction n last_n m info rule: race_types.induct)
  case (1 n last_n m info)
  show ?case
  proof (cases "m < last_n \<and> l_offset (info ! m) \<noteq> 0 \<and> l_continuation (info ! m) \<noteq> 0")
    case True
    show ?thesis
      apply (subst race_types.simps)
      apply (simp only: True if_True simp_thms)
      apply (subst 1 [OF True])
      apply (simp add: conts_update)
      done
  next
    case False
    show ?thesis
      apply (subst race_types.simps)
      apply (simp only: False if_False)
      done
  qed
qed

lemma conts_length:
  "map l_continuation a = map l_continuation b \<Longrightarrow> length a = length b"
  by (metis length_map)

lemma scan_frame_refl:
  "sc_max sc = length (sc_info sc) \<Longrightarrow> scan_frame n sc sc"
  by (simp add: scan_frame_def)

lemma scan_frame_grow:
  assumes "sc_max sc = length (sc_info sc)" and "n = sc_last sc"
    and "n \<le> length (sc_info sc)"
  shows "scan_frame n sc (d_sc (dl_grow env n flags sc)) \<and>
         sc_last (d_sc (dl_grow env n flags sc)) = n + 1 \<and>
         d_change_last (dl_grow env n flags sc)"
  using assms by (simp add: dl_grow_def scan_frame_def Let_def)

lemma scan_frame_info:
  assumes "scan_frame n sc sc1"
    and "map l_continuation info = map l_continuation (sc_info sc1)"
  shows "scan_frame n sc (sc1\<lparr> sc_info := info, sc_quote := qs \<rparr>)"
    and "scan_frame n sc (sc1\<lparr> sc_info := info \<rparr>)"
  using assms conts_length [OF assms(2)] by (simp_all add: scan_frame_def)

lemma with_buffer_cases:
  assumes "with_buffer env n s k = Some (Inr x)"
  obtains (fail) "x = Return (-1) (if d_change_last s
                    then (d_sc s)\<lparr> sc_last := sc_last (d_sc s) - 1 \<rparr> else d_sc s)"
  | (run) buf fmt s1 where "d_sc s1 = d_sc s" and "d_flags s1 = d_flags s"
      and "d_change_last s1 = d_change_last s" and "k buf fmt s1 = Some (Inr x)"
proof (cases "d_buf s")
  case (Some b)
  with assms have "k (fst b) (snd b) s = Some (Inr x)" by (simp add: with_buffer_def)
  then show ?thesis using run [of s "fst b" "snd b"] by simp
next
  case None
  show ?thesis
  proof (cases "fill_buffer env (l_offset (sc_info (d_sc s) ! n))")
    case n2: None
    with None assms show ?thesis using fail by (simp add: with_buffer_def dl_fail_def)
  next
    case (Some b)
    show ?thesis
    proof (cases "snd b")
      case (Inl e)
      with None Some assms show ?thesis by (simp add: with_buffer_def)
    next
      case (Inr fmt)
      with None Some assms have "k (fst b) (Inr fmt) (s\<lparr> d_buf := Some b \<rparr>) = Some (Inr x)"
        by (simp add: with_buffer_def)
      then show ?thesis using run [of "s\<lparr> d_buf := Some b \<rparr>" "fst b" "Inr fmt"] by simp
    qed
  qed
qed

lemma scan_frame_last:
  "scan_frame n sc sc1 \<Longrightarrow> scan_frame n sc (sc1\<lparr> sc_last := k \<rparr>)"
  by (simp add: scan_frame_def)

lemma dl_types_frame:
  assumes J: "scan_frame n sc (d_sc s)" "sc_last (d_sc s) = n + 1" "d_change_last s"
    and r: "dl_types env n s = Some (Inr x)"
  shows "case x of
           Return rc sc' \<Rightarrow> rc \<noteq> 0 \<and> scan_frame n sc sc' \<and> sc_last sc' = n
         | Next s' \<Rightarrow> scan_frame n sc (d_sc s') \<and> sc_last (d_sc s') = n + 1 \<and> d_change_last s'"
proof (cases "d_flags s \<inter> {MUTT_SHOWCOLOR, MUTT_TYPES} = {}")
  case True
  with r J show ?thesis by (auto simp: dl_types_def)
next
  case False
  show ?thesis
  proof (cases "l_type (sc_info (d_sc s) ! n) = MT_COLOR_UNSET")
    case nt: False
    with r J False show ?thesis
      by (auto simp: dl_types_def then_stage_def split: if_splits)
  next
    case ut: True
    from r False ut have inr: "n < length (sc_info (d_sc s))"
      by (auto simp: dl_types_def split: if_splits)
    from r False ut inr obtain y where
      w: "with_buffer env n s (\<lambda>buf fmt s1.
               case fmt of
                 Inl e \<Rightarrow> Some (Inl e)
               | Inr f \<Rightarrow>
                   (case resolve_types (p_cfg env) f buf n (sc_last (d_sc s1))
                           (MUTT_SHOWCOLOR \<in> d_flags s1) (sc_info (d_sc s1))
                           (sc_quote (d_sc s1)) of
                      None \<Rightarrow> None
                    | Some (Inl e) \<Rightarrow> Some (Inl e)
                    | Some (Inr r) \<Rightarrow>
                        Some (Inr (Next (s1\<lparr>
                          d_sc := (d_sc s1)\<lparr>
                            sc_info := race_types n (sc_last (d_sc s1)) (n + 1) (fst r),
                            sc_quote := snd r \<rparr>,
                          d_buf := Some (buf, fmt_after_resolve (c_HeaderColorPartial (p_cfg env))
                                                (l_type (fst r ! n)) f) \<rparr>))))) = Some (Inr y)"
      and x: "(case y of Return rc sc' \<Rightarrow> x = Return rc sc'
              | Next s1 \<Rightarrow> x = Next (if MUTT_HIDE \<in> d_flags s1 \<and>
                    l_type (sc_info (d_sc s1) ! n) = MT_COLOR_QUOTED
                  then s1\<lparr> d_flags := {} \<rparr> else s1))"
      by (auto simp: dl_types_def then_stage_def split: if_splits option.splits sum.splits stage.splits)
    from w show ?thesis
    proof (cases rule: with_buffer_cases)
      case fail
      with x J show ?thesis by (simp add: scan_frame_last)
    next
      case (run buf fmt s1)
      from run(4) obtain f r' where
        rt: "resolve_types (p_cfg env) f buf n (sc_last (d_sc s1))
               (MUTT_SHOWCOLOR \<in> d_flags s1) (sc_info (d_sc s1)) (sc_quote (d_sc s1)) = Some (Inr r')"
        and y: "y = Next (s1\<lparr>
                          d_sc := (d_sc s1)\<lparr>
                            sc_info := race_types n (sc_last (d_sc s1)) (n + 1) (fst r'),
                            sc_quote := snd r' \<rparr>,
                          d_buf := Some (buf, fmt_after_resolve (c_HeaderColorPartial (p_cfg env))
                                                (l_type (fst r' ! n)) f) \<rparr>)"
        by (auto split: sum.splits option.splits)
      have c: "map l_continuation (race_types n (sc_last (d_sc s1)) (n + 1) (fst r')) =
               map l_continuation (sc_info (d_sc s1))"
        using conts_resolve_types [OF rt] by (simp add: conts_race_types)
      from J run(1) have "scan_frame n sc (d_sc s1)" by simp
      from scan_frame_info(1) [OF this c] J run x y show ?thesis
        by (simp add: scan_frame_def)
    qed
  qed
qed

lemma dl_search_frame:
  assumes J: "scan_frame n sc (d_sc s)" "sc_last (d_sc s) = n + 1" "d_change_last s"
    and r: "dl_search env n s = Some (Inr x)"
  shows "case x of
           Return rc sc' \<Rightarrow> rc \<noteq> 0 \<and> scan_frame n sc sc' \<and> sc_last sc' = n
         | Next s' \<Rightarrow> scan_frame n sc (d_sc s') \<and> sc_last (d_sc s') = n + 1 \<and> d_change_last s'"
proof (cases "MUTT_SEARCH \<in> d_flags s \<and> l_continuation (sc_info (d_sc s) ! n) = 0 \<and>
              l_search_cnt (sc_info (d_sc s) ! n) = -1")
  case False
  with r J show ?thesis by (auto simp: dl_search_def split: if_splits)
next
  case True
  with r have w: "with_buffer env n s (\<lambda>buf fmt s1.
          case fmt of
            Inl e \<Rightarrow> Some (Inl e)
          | Inr f \<Rightarrow>
              (case search_loop (p_search_re env) f 0 0 (l_search (sc_info (d_sc s1) ! n)) of
                 None \<Rightarrow> None
               | Some (Inl e) \<Rightarrow> Some (Inl e)
               | Some (Inr r) \<Rightarrow>
                   Some (Inr (Next (s1\<lparr> d_sc := (d_sc s1)\<lparr> sc_info :=
                     (sc_info (d_sc s1))[n := (sc_info (d_sc s1) ! n)
                        \<lparr> l_search_cnt := fst r, l_search := snd r \<rparr>] \<rparr> \<rparr>))))) = Some (Inr x)"
    by (auto simp: dl_search_def split: if_splits)
  from w show ?thesis
  proof (cases rule: with_buffer_cases)
    case fail
    with J show ?thesis by (simp add: scan_frame_last)
  next
    case (run buf fmt s1)
    from run(4) obtain r' where
      x: "x = Next (s1\<lparr> d_sc := (d_sc s1)\<lparr> sc_info :=
                     (sc_info (d_sc s1))[n := (sc_info (d_sc s1) ! n)
                        \<lparr> l_search_cnt := fst r', l_search := snd r' \<rparr>] \<rparr> \<rparr>)"
      by (auto split: sum.splits option.splits)
    have c: "map l_continuation ((sc_info (d_sc s1))[n := (sc_info (d_sc s1) ! n)
                        \<lparr> l_search_cnt := fst r', l_search := snd r' \<rparr>]) =
             map l_continuation (sc_info (d_sc s1))"
      by (simp add: conts_update)
    from J run(1) have "scan_frame n sc (d_sc s1)" by simp
    from scan_frame_info(2) [OF this c] J run x show ?thesis
      by simp
  qed
qed

lemma take_conts_next:
  "take n (map l_continuation (info[n + 1 := l])) = take n (map l_continuation info)"
  by (simp add: map_update)

lemma append_line_frame:
  "length (append_line info n u) = length info"
  "take n (map l_continuation (append_line info n u)) = take n (map l_continuation info)"
  by (simp_all add: append_line_def map_update)

lemma dl_measure_frame:
  assumes J: "scan_frame n sc (d_sc s)" "sc_last (d_sc s) = n + 1" "d_change_last s"
    and r: "dl_measure env n s = Some (Inr x)"
  shows "case x of
           Return rc sc' \<Rightarrow> scan_frame n sc sc' \<and>
             (if rc = 0 then sc_last sc' = n + 1 \<and> n + 1 < length (sc_info sc')
              else sc_last sc' = n)
         | Next s' \<Rightarrow> False"
proof -
  from r have inr: "n + 1 < length (sc_info (d_sc s))"
    by (auto simp: dl_measure_def split: if_splits)
  show ?thesis
  proof (cases "l_offset (sc_info (d_sc s) ! (n + 1)) > 0")
    case True
    with r inr J show ?thesis by (auto simp: dl_measure_def)
  next
    case False
    with r inr have w: "with_buffer env n s (\<lambda>buf fmt s1.
          case format_line (p_fmt env) (sc_info (d_sc s1)) n buf (d_flags s1) None (length buf) of
            None \<Rightarrow> None
          | Some st \<Rightarrow>
              (let info = sc_info (d_sc s1);
                   used = wrap_break (p_C_SmartWrap env) (d_flags s1) (l_type (info ! n)) buf
                            (length buf) (f_ch st) (f_space st);
                   info1 = (if used < length buf \<and> l_continuation (info ! (n + 1)) = 0
                            then append_line info n (int used) else info)
               in Some (Inr (Return 0 ((d_sc s1)\<lparr> sc_info :=
                    info1[n + 1 := (info1 ! (n + 1))
                            \<lparr> l_offset := l_offset (info1 ! n) + int used \<rparr>] \<rparr>))))) = Some (Inr x)"
      by (simp add: dl_measure_def)
    from w show ?thesis
    proof (cases rule: with_buffer_cases)
      case fail
      with J show ?thesis by (simp add: scan_frame_last)
    next
      case (run buf fmt s1)
      from run(4) obtain st where
        fl: "format_line (p_fmt env) (sc_info (d_sc s1)) n buf (d_flags s1) None (length buf) = Some st"
        by (auto split: option.splits)
      let ?I = "sc_info (d_sc s1)"
      let ?u = "wrap_break (p_C_SmartWrap env) (d_flags s1)
          (l_type (sc_info (d_sc s1) ! n)) buf (length buf) (f_ch st) (f_space st)"
      have "\<exists>info'. x = Return 0 ((d_sc s1)\<lparr> sc_info := info' \<rparr>) \<and>
              length info' = length ?I \<and>
              take n (map l_continuation info') = take n (map l_continuation ?I)"
      proof (cases "?u < length buf \<and> l_continuation (?I ! (n + 1)) = 0")
        case True
        let ?A = "(append_line ?I n (int ?u))[n + 1 := (append_line ?I n (int ?u) ! (n + 1))
              \<lparr> l_offset := l_offset (append_line ?I n (int ?u) ! n) + int ?u \<rparr>]"
        from True run(4) fl have "x = Return 0 ((d_sc s1)\<lparr> sc_info := ?A \<rparr>)"
          by (simp add: Let_def)
        moreover have "length ?A = length ?I"
          by (simp add: append_line_frame)
        moreover have "take n (map l_continuation ?A) = take n (map l_continuation ?I)"
          by (simp add: append_line_frame map_update)
        ultimately show ?thesis by blast
      next
        case False
        let ?A = "?I[n + 1 := (?I ! (n + 1)) \<lparr> l_offset := l_offset (?I ! n) + int ?u \<rparr>]"
        from False run(4) fl have "x = Return 0 ((d_sc s1)\<lparr> sc_info := ?A \<rparr>)"
          by (auto simp: Let_def)
        moreover have "length ?A = length ?I"
          by simp
        moreover have "take n (map l_continuation ?A) = take n (map l_continuation ?I)"
          by (simp add: map_update)
        ultimately show ?thesis by blast
      qed
      then obtain info' where x: "x = Return 0 ((d_sc s1)\<lparr> sc_info := info' \<rparr>)"
        and l: "length info' = length (sc_info (d_sc s1))"
        and t: "take n (map l_continuation info') = take n (map l_continuation (sc_info (d_sc s1)))"
        by blast
      from J run(1) l t inr x show ?thesis
        by (simp add: scan_frame_def)
    qed
  qed
qed

lemma display_line_scan_frame:
  assumes "sc_max sc = length (sc_info sc)" and "n = sc_last sc"
    and "n \<le> length (sc_info sc)"
    and r: "display_line_scan env n flags sc = Some (Inr (rc, sc'))"
  shows "scan_frame n sc sc' \<and>
         (if rc = 0 then sc_last sc' = n + 1 \<and> n + 1 < length (sc_info sc')
          else sc_last sc' = n)"
proof -
  note g = scan_frame_grow [OF assms(1-3), of env flags]
  from r obtain x1 where t: "dl_types env n (dl_grow env n flags sc) = Some (Inr x1)"
    by (auto simp: display_line_scan_def then_stage_def split: option.splits sum.splits)
  note f1 = dl_types_frame [OF _ _ _ t, of sc]
  show ?thesis
  proof (cases x1)
    case (Return rc1 sc1)
    with r t f1 g show ?thesis
      by (auto simp: display_line_scan_def then_stage_def)
  next
    case (Next s1)
    with r t obtain x2 where s: "dl_search env n s1 = Some (Inr x2)"
      by (auto simp: display_line_scan_def then_stage_def split: option.splits sum.splits)
    from f1 g Next have J1: "scan_frame n sc (d_sc s1)" "sc_last (d_sc s1) = n + 1" "d_change_last s1"
      by simp_all
    note f2 = dl_search_frame [OF J1 s]
    show ?thesis
    proof (cases x2)
      case (Return rc2 sc2)
      with r t s Next f2 show ?thesis
        by (auto simp: display_line_scan_def then_stage_def)
    next
      case n2: (Next s2)
      with r t s Next obtain x3 where m: "dl_measure env n s2 = Some (Inr x3)"
        by (auto simp: display_line_scan_def then_stage_def split: option.splits sum.splits)
      from f2 n2 have J2: "scan_frame n sc (d_sc s2)" "sc_last (d_sc s2) = n + 1" "d_change_last s2"
        by simp_all
      note f3 = dl_measure_frame [OF J2 m]
      from r t s m Next n2 f3 show ?thesis
        by (auto simp: display_line_scan_def then_stage_def split: stage.splits)
    qed
  qed
qed

lemma conts_take_nth:
  assumes "take i (map l_continuation a) = take i (map l_continuation b)"
    and "k < i" and "i \<le> length a" and "i \<le> length b"
  shows "l_continuation (a ! k) = l_continuation (b ! k)"
proof -
  have "l_continuation (a ! k) = take i (map l_continuation a) ! k"
    using assms(2,3) by simp
  also have "\<dots> = take i (map l_continuation b) ! k"
    using assms(1) by simp
  also have "\<dots> = l_continuation (b ! k)"
    using assms(2,4) by simp
  finally show ?thesis .
qed

lemma logical_below_cong:
  assumes "take i (map l_continuation a) = take i (map l_continuation b)"
    and "k \<le> i" and "i \<le> length a" and "i \<le> length b"
  shows "logical_below a k = logical_below b k"
proof -
  have "filter (\<lambda>t. l_continuation (a ! t) = 0) [0..<k] =
        filter (\<lambda>t. l_continuation (b ! t) = 0) [0..<k]"
    using assms by (intro filter_cong refl) (simp add: conts_take_nth [OF assms(1)])
  then show ?thesis by (simp add: logical_below_def)
qed

lemma logical_below_Suc:
  "logical_below a (Suc i) = logical_below a i + (if l_continuation (a ! i) = 0 then 1 else 0)"
  by (simp add: logical_below_def)

lemma count_logical_below: "count_logical a t = logical_below a (Suc t) - 1"
  by (simp add: count_logical_def logical_below_def)

lemma scan_of_simps:
  "scan_of (put_scan sc rd) = sc"
  "scan_of (rd\<lparr> rd_topline := t \<rparr>) = scan_of rd"
  "sc_info (scan_of rd) = rd_line_info rd"
  "sc_last (scan_of rd) = rd_last_line rd"
  "sc_max (scan_of rd) = rd_max_line rd"
  by (simp_all add: scan_of_def put_scan_def)

lemma put_scan_simps:
  "rd_line_info (put_scan sc rd) = sc_info sc"
  "rd_last_line (put_scan sc rd) = sc_last sc"
  "rd_max_line (put_scan sc rd) = sc_max sc"
  "rd_lines (put_scan sc rd) = rd_lines rd"
  "rd_topline (put_scan sc rd) = rd_topline rd"
  "rd_search_flag (put_scan sc rd) = rd_search_flag rd"
  "flow_flags (put_scan sc rd) = flow_flags rd"
  "flow_flags (rd\<lparr> rd_topline := t \<rparr>) = flow_flags rd"
  by (simp_all add: put_scan_def flow_flags_def)

text \<open>One round of the replay loop, as seen from the line array.\<close>

lemma scan_step:
  assumes mx: "sc_max sc = length (sc_info sc)" and la: "sc_last sc = i"
    and le: "i \<le> length (sc_info sc)"
    and d: "display_line_scan env i flags sc = Some (Inr (rc, sc1))"
  shows "sc_max sc1 = length (sc_info sc1)"
    and "i \<le> length (sc_info sc1)"
    and "\<And>k. k \<le> i \<Longrightarrow> logical_below (sc_info sc1) k = logical_below (sc_info sc) k"
    and "\<And>k. k < i \<Longrightarrow> l_continuation (sc_info sc1 ! k) = l_continuation (sc_info sc ! k)"
    and "rc = 0 \<Longrightarrow> sc_last sc1 = i + 1 \<and> i + 1 < length (sc_info sc1)"
    and "rc \<noteq> 0 \<Longrightarrow> sc_last sc1 = i"
proof -
  note fr = display_line_scan_frame [OF mx la [symmetric] le d]
  then have tk: "take i (map l_continuation (sc_info sc1)) = take i (map l_continuation (sc_info sc))"
    and mx1: "sc_max sc1 = length (sc_info sc1)"
    by (simp_all add: scan_frame_def)
  show "sc_max sc1 = length (sc_info sc1)" by (rule mx1)
  show le1: "i \<le> length (sc_info sc1)"
    using tk le by (metis length_map length_take min.absorb2 min.cobounded1)
  show "\<And>k. k \<le> i \<Longrightarrow> logical_below (sc_info sc1) k = logical_below (sc_info sc) k"
    using logical_below_cong [OF tk _ le1 le] by simp
  show "\<And>k. k < i \<Longrightarrow> l_continuation (sc_info sc1 ! k) = l_continuation (sc_info sc ! k)"
    using conts_take_nth [OF tk _ le1 le] by simp
  show "rc = 0 \<Longrightarrow> sc_last sc1 = i + 1 \<and> i + 1 < length (sc_info sc1)"
    using fr by simp
  show "rc \<noteq> 0 \<Longrightarrow> sc_last sc1 = i"
    using fr by simp
qed

lemma flow_loop_inv:
  assumes "flow_loop env i j rd = Some y"
  shows "\<forall>rd'. y = Inr rd' \<longrightarrow> rd_max_line rd = length (rd_line_info rd) \<longrightarrow>
           rd_last_line rd = i \<longrightarrow> i \<le> length (rd_line_info rd) \<longrightarrow>
           j + 1 = logical_below (rd_line_info rd) i \<longrightarrow>
           (j < rd_lines rd \<or>
            (rd_topline rd < i \<and> l_continuation (rd_line_info rd ! rd_topline rd) = 0 \<and>
             logical_below (rd_line_info rd) (Suc (rd_topline rd)) = rd_lines rd + 1)) \<longrightarrow>
           (logical_below (rd_line_info rd') (rd_last_line rd') \<le> rd_lines rd \<or>
            (l_continuation (rd_line_info rd' ! rd_topline rd') = 0 \<and>
             logical_below (rd_line_info rd') (Suc (rd_topline rd')) = rd_lines rd + 1))"
proof (rule flow_loop.raw_induct [where P = "\<lambda>env i j rd y.
         \<forall>rd'. y = Inr rd' \<longrightarrow> rd_max_line rd = length (rd_line_info rd) \<longrightarrow>
           rd_last_line rd = i \<longrightarrow> i \<le> length (rd_line_info rd) \<longrightarrow>
           j + 1 = logical_below (rd_line_info rd) i \<longrightarrow>
           (j < rd_lines rd \<or>
            (rd_topline rd < i \<and> l_continuation (rd_line_info rd ! rd_topline rd) = 0 \<and>
             logical_below (rd_line_info rd) (Suc (rd_topline rd)) = rd_lines rd + 1)) \<longrightarrow>
           (logical_below (rd_line_info rd') (rd_last_line rd') \<le> rd_lines rd \<or>
            (l_continuation (rd_line_info rd' ! rd_topline rd') = 0 \<and>
             logical_below (rd_line_info rd') (Suc (rd_topline rd')) = rd_lines rd + 1))", OF _ assms],
       goal_cases)
  case (1 loop env i j rd y)
  show ?case
  proof (intro allI impI)
    fix rd'
    assume y: "y = Inr rd'" and mx: "rd_max_line rd = length (rd_line_info rd)"
      and la: "rd_last_line rd = i" and le: "i \<le> length (rd_line_info rd)"
      and jj: "j + 1 = logical_below (rd_line_info rd) i"
      and tp: "j < rd_lines rd \<or>
            (rd_topline rd < i \<and> l_continuation (rd_line_info rd ! rd_topline rd) = 0 \<and>
             logical_below (rd_line_info rd) (Suc (rd_topline rd)) = rd_lines rd + 1)"
    from 1(2) y obtain rc sc1 where
      d: "display_line_scan env i (flow_flags rd) (scan_of rd) = Some (Inr (rc, sc1))"
      by (cases "display_line_scan env i (flow_flags rd) (scan_of rd)")
         (auto split: sum.splits)
    note st = scan_step [OF _ _ _ d, unfolded scan_of_simps, OF mx la le]
    let ?rd1 = "put_scan sc1 rd"
    have tp1: "j < rd_lines rd \<or>
            (rd_topline rd < i \<and> l_continuation (sc_info sc1 ! rd_topline rd) = 0 \<and>
             logical_below (sc_info sc1) (Suc (rd_topline rd)) = rd_lines rd + 1)"
      using tp st(3,4) by auto
    show "logical_below (rd_line_info rd') (rd_last_line rd') \<le> rd_lines rd \<or>
            (l_continuation (rd_line_info rd' ! rd_topline rd') = 0 \<and>
             logical_below (rd_line_info rd') (Suc (rd_topline rd')) = rd_lines rd + 1)"
    proof (cases "rc = 0")
      case False
      with 1(2) y d have "rd' = ?rd1" by simp
      moreover from False st(6) have "sc_last sc1 = i" by simp
      ultimately show ?thesis using tp1 jj st(3) [of i] by (auto simp: put_scan_simps)
    next
      case True
      with st(5) have la1: "sc_last sc1 = i + 1" and lt1: "i + 1 < length (sc_info sc1)"
        by simp_all
      show ?thesis
      proof (cases "l_continuation (sc_info sc1 ! i) = 0")
        case c: False
        with 1(2) y d True have rec: "loop env (i + 1) j ?rd1 = Some (Inr rd')" by simp
        have "j + 1 = logical_below (sc_info sc1) (i + 1)"
          using jj st(3) [of i] c by (simp add: logical_below_Suc)
        moreover have "j < rd_lines rd \<or>
            (rd_topline rd < i + 1 \<and> l_continuation (sc_info sc1 ! rd_topline rd) = 0 \<and>
             logical_below (sc_info sc1) (Suc (rd_topline rd)) = rd_lines rd + 1)"
          using tp1 by auto
        ultimately show ?thesis
          using 1(1) [OF rec] st(1) la1 lt1 by (simp add: put_scan_simps)
      next
        case c: True
        have j1: "j + 1 + 1 = logical_below (sc_info sc1) (i + 1)"
          using jj st(3) [of i] c by (simp add: logical_below_Suc)
        show ?thesis
        proof (cases "j + 1 = rd_lines rd")
          case h: True
          show ?thesis
          proof (cases "rd_search_flag rd = {}")
            case s: True
            with 1(2) y d True c h have "rd' = ?rd1\<lparr> rd_topline := i \<rparr>" by simp
            then show ?thesis using c j1 h by (simp add: put_scan_simps)
          next
            case s: False
            with 1(2) y d True c h
            have rec: "loop env (i + 1) (j + 1) (?rd1\<lparr> rd_topline := i \<rparr>) = Some (Inr rd')" by simp
            show ?thesis
              using 1(1) [OF rec] st(1) la1 lt1 j1 c h by (simp add: put_scan_simps)
          qed
        next
          case h: False
          with 1(2) y d True c
          have rec: "loop env (i + 1) (j + 1) ?rd1 = Some (Inr rd')" by simp
          have "j + 1 < rd_lines rd \<or>
            (rd_topline rd < i + 1 \<and> l_continuation (sc_info sc1 ! rd_topline rd) = 0 \<and>
             logical_below (sc_info sc1) (Suc (rd_topline rd)) = rd_lines rd + 1)"
            using tp1 h by auto
          then show ?thesis
            using 1(1) [OF rec] st(1) la1 lt1 j1 by (simp add: put_scan_simps)
        qed
      qed
    qed
  qed
qed

lemma replay_Suc:
  assumes "replay env flags (Suc k) sc0 = Some sc2"
  obtains sc1 where "replay env flags k sc0 = Some sc1"
    and "display_line_scan env k flags sc1 = Some (Inr (0, sc2))"
proof -
  from assms obtain sc1 where a: "replay env flags k sc0 = Some sc1"
    by (auto split: option.splits)
  with assms obtain r where b: "display_line_scan env k flags sc1 = Some (Inr r)"
    and c: "fst r = 0" and d: "snd r = sc2"
    by (auto split: option.splits sum.splits if_splits)
  from c d have "r = (0, sc2)" by (cases r) simp
  with a b that show ?thesis by simp
qed

lemma replay_prefix:
  "replay env flags m sc0 = Some scm \<Longrightarrow> i \<le> m \<Longrightarrow> \<exists>sci. replay env flags i sc0 = Some sci"
proof (induction m arbitrary: scm)
  case 0
  then show ?case by simp
next
  case (Suc m)
  show ?case
  proof (cases "i = Suc m")
    case True
    with Suc.prems show ?thesis by blast
  next
    case False
    with Suc.prems have "i \<le> m" by simp
    moreover from Suc.prems(1) obtain sc1 where "replay env flags m sc0 = Some sc1"
      by (rule replay_Suc)
    ultimately show ?thesis using Suc.IH by blast
  qed
qed

lemma replay_inv:
  assumes "sc_max sc0 = length (sc_info sc0)" and "sc_last sc0 = 0"
  shows "replay env flags k sc0 = Some sck \<Longrightarrow>
         sc_max sck = length (sc_info sck) \<and> sc_last sck = k \<and> k \<le> length (sc_info sck)"
proof (induction k arbitrary: sck)
  case 0
  with assms show ?case by simp
next
  case (Suc k)
  from Suc.prems obtain sc1 where r: "replay env flags k sc0 = Some sc1"
    and d: "display_line_scan env k flags sc1 = Some (Inr (0, sck))"
    by (rule replay_Suc)
  from Suc.IH [OF r] have i: "sc_max sc1 = length (sc_info sc1)" "sc_last sc1 = k"
    "k \<le> length (sc_info sc1)" by simp_all
  from scan_step(1,5) [OF i d] show ?case by simp
qed

lemma replay_below:
  assumes "sc_max sc0 = length (sc_info sc0)" and "sc_last sc0 = 0"
    and "replay env flags i sc0 = Some sci"
  shows "replay env flags m sc0 = Some scm \<Longrightarrow> i \<le> m \<Longrightarrow>
         logical_below (sc_info scm) i = logical_below (sc_info sci) i"
proof (induction m arbitrary: scm)
  case 0
  with assms(3) show ?case by simp
next
  case (Suc m)
  show ?case
  proof (cases "i = Suc m")
    case True
    with Suc.prems assms(3) show ?thesis by simp
  next
    case False
    with Suc.prems have im: "i \<le> m" by simp
    from Suc.prems(1) obtain sc1 where r: "replay env flags m sc0 = Some sc1"
      and d: "display_line_scan env m flags sc1 = Some (Inr (0, scm))"
      by (rule replay_Suc)
    from replay_inv [OF assms(1,2) r] have i: "sc_max sc1 = length (sc_info sc1)"
      "sc_last sc1 = m" "m \<le> length (sc_info sc1)" by simp_all
    from scan_step(3) [OF i d im] Suc.IH [OF r im] show ?thesis by simp
  qed
qed

lemma flow_loop_returns:
  assumes i0: "sc_max sc0 = length (sc_info sc0)" "sc_last sc0 = 0"
    and rM: "replay env fl M sc0 = Some scM"
    and hit: "L < logical_below (sc_info scM) M"
    and fin: "se \<noteq> {} \<longrightarrow>
              (\<exists>rc scE. display_line_scan env M fl scM = Some (Inr (rc, scE)) \<and> rc \<noteq> 0)"
  shows "i \<le> M \<Longrightarrow> replay env fl i sc0 = Some (scan_of rd) \<Longrightarrow> flow_flags rd = fl \<Longrightarrow>
         rd_lines rd = L \<Longrightarrow> rd_search_flag rd = se \<Longrightarrow>
         j + 1 = logical_below (rd_line_info rd) i \<Longrightarrow> j < L \<or> se \<noteq> {} \<Longrightarrow>
         \<exists>rd'. flow_loop env i j rd = Some (Inr rd') \<and>
               L < logical_below (rd_line_info rd') (rd_last_line rd')"
proof (induction "M - i" arbitrary: i j rd)
  case 0
  then have iM: "i = M" by simp
  with 0 rM have sc: "scan_of rd = scM" by simp
  then have info: "rd_line_info rd = sc_info scM"
    by (metis scan_of_simps(3))
  from 0(7) iM info hit have "\<not> j < L" by simp
  with 0(8) fin obtain rc scE where
    d: "display_line_scan env M fl scM = Some (Inr (rc, scE))" and rc: "rc \<noteq> 0"
    by blast
  from replay_inv [OF i0 rM] have i: "sc_max scM = length (sc_info scM)" "sc_last scM = M"
    "M \<le> length (sc_info scM)" by simp_all
  from scan_step(3) [OF i d, of M] scan_step(6) [OF i d rc] hit
  have "L < logical_below (sc_info scE) (sc_last scE)" by simp
  moreover have "flow_loop env i j rd = Some (Inr (put_scan scE rd))"
    using d rc iM sc 0(4) by (subst flow_loop.simps) simp
  ultimately show ?case by (simp add: put_scan_simps)
next
  case (Suc n)
  then have iM: "i < M" and n: "n = M - (i + 1)" and iM1: "i + 1 \<le> M" by simp_all
  from replay_prefix [OF rM iM1] obtain sc2 where r2: "replay env fl (Suc i) sc0 = Some sc2"
    by auto
  then obtain sc1 where r1: "replay env fl i sc0 = Some sc1"
    and d1: "display_line_scan env i fl sc1 = Some (Inr (0, sc2))"
    by (rule replay_Suc)
  with Suc.prems(2) have sc1: "sc1 = scan_of rd" by simp
  from replay_inv [OF i0 r1] sc1 have i: "sc_max (scan_of rd) = length (sc_info (scan_of rd))"
    "sc_last (scan_of rd) = i" "i \<le> length (sc_info (scan_of rd))" by simp_all
  from d1 sc1 Suc.prems(3) have d: "display_line_scan env i (flow_flags rd) (scan_of rd) = Some (Inr (0, sc2))"
    by simp
  note st = scan_step [OF i d1 [unfolded sc1], unfolded scan_of_simps]
  let ?rd1 = "put_scan sc2 rd"
  have pre: "\<And>t. replay env fl (i + 1) sc0 = Some (scan_of (?rd1\<lparr> rd_topline := t \<rparr>))"
    "replay env fl (i + 1) sc0 = Some (scan_of ?rd1)"
    using r2 by (simp_all add: scan_of_simps)
  show ?case
  proof (cases "l_continuation (sc_info sc2 ! i) = 0")
    case c: False
    have "j + 1 = logical_below (rd_line_info ?rd1) (i + 1)"
      using Suc.prems(6) st(3) [of i] c by (simp add: logical_below_Suc put_scan_simps)
    from Suc.hyps(1) [OF n iM1 pre(2) _ _ _ this Suc.prems(7)] Suc.prems(3,4,5)
    obtain rd' where "flow_loop env (i + 1) j ?rd1 = Some (Inr rd')"
      and "L < logical_below (rd_line_info rd') (rd_last_line rd')"
      by (auto simp: put_scan_simps)
    moreover have "flow_loop env i j rd = flow_loop env (i + 1) j ?rd1"
      using d c by (subst flow_loop.simps) simp
    ultimately show ?thesis by simp
  next
    case c: True
    have j1: "j + 1 + 1 = logical_below (sc_info sc2) (i + 1)"
      using Suc.prems(6) st(3) [of i] c by (simp add: logical_below_Suc)
    show ?thesis
    proof (cases "j + 1 = L")
      case h: True
      show ?thesis
      proof (cases "se = {}")
        case s: True
        have "flow_loop env i j rd = Some (Inr (?rd1\<lparr> rd_topline := i \<rparr>))"
          using d c h s Suc.prems(4,5) by (subst flow_loop.simps) simp
        moreover have "L < logical_below (sc_info sc2) (sc_last sc2)"
          using st(5) j1 h by simp
        ultimately show ?thesis by (simp add: put_scan_simps)
      next
        case s: False
        have "j + 1 + 1 = logical_below (rd_line_info (?rd1\<lparr> rd_topline := i \<rparr>)) (i + 1)"
          using j1 by (simp add: put_scan_simps)
        from Suc.hyps(1) [OF n iM1 pre(1) _ _ _ this] Suc.prems(3,4,5) s
        obtain rd' where "flow_loop env (i + 1) (j + 1) (?rd1\<lparr> rd_topline := i \<rparr>) = Some (Inr rd')"
          and "L < logical_below (rd_line_info rd') (rd_last_line rd')"
          by (auto simp: put_scan_simps)
        moreover have "flow_loop env i j rd =
            flow_loop env (i + 1) (j + 1) (?rd1\<lparr> rd_topline := i \<rparr>)"
          using d c h s Suc.prems(4,5) by (subst flow_loop.simps) simp
        ultimately show ?thesis by simp
      qed
    next
      case h: False
      have a: "j + 1 + 1 = logical_below (rd_line_info ?rd1) (i + 1)"
        using j1 by (simp add: put_scan_simps)
      have b: "j + 1 < L \<or> se \<noteq> {}" using Suc.prems(7) h by auto
      from Suc.hyps(1) [OF n iM1 pre(2) _ _ _ a b] Suc.prems(3,4,5)
      obtain rd' where "flow_loop env (i + 1) (j + 1) ?rd1 = Some (Inr rd')"
        and "L < logical_below (rd_line_info rd') (rd_last_line rd')"
        by (auto simp: put_scan_simps)
      moreover have "flow_loop env i j rd = flow_loop env (i + 1) (j + 1) ?rd1"
        using d c h Suc.prems(4) by (subst flow_loop.simps) simp
      ultimately show ?thesis by simp
    qed
  qed
qed

text \<open>
  The replay loop restores the logical top line whenever the re-scan gets that far.
  Before a reflow without \<^verbatim>\<open>MUTT_PAGER_RETWINCH\<close>, let the top line be a record that
  is not a continuation, and let \<open>L\<close> be its logical index: the number of records
  \<open>0 \<dots> topline\<close> that are not continuations, less one.  Suppose that the re-scan of
  the reset line array returns 0 for the lines \<open>0 \<dots> M - 1\<close>, that these \<open>M\<close> records
  hold more than \<open>L\<close> records that are not continuations, and, when a search is
  active, that the scan of line \<open>M\<close> ends the loop with a non-zero code.  Then the
  reflow returns, the new top line is a record that is not a continuation, and its
  logical index in the rescanned array is \<open>L\<close>.
\<close>

lemma reflow_keeps_logical_line:
  assumes nw: "MUTT_PAGER_RETWINCH \<notin> rd_flags rd"
    and mx: "rd_max_line rd = length (rd_line_info rd)"
    and ty: "rd_has_types rd \<subseteq> {MUTT_TYPES}"
    and se: "rd_search_flag rd \<subseteq> {MUTT_SEARCH}"
    and top: "l_continuation (rd_line_info rd ! rd_topline rd) = 0"
    and rM: "replay env (flow_flags rd) M (scan_of (redraw_flow_reset rd)) = Some scM"
    and hit: "count_logical (rd_line_info rd) (rd_topline rd) < logical_below (sc_info scM) M"
    and fin: "rd_search_flag rd \<noteq> {} \<longrightarrow>
              (\<exists>rc scE. display_line_scan env M (flow_flags rd) scM = Some (Inr (rc, scE)) \<and> rc \<noteq> 0)"
  shows "\<exists>rd'. redraw_flow env rd = Some (Inr rd') \<and>
           l_continuation (rd_line_info rd' ! rd_topline rd') = 0 \<and>
           count_logical (rd_line_info rd') (rd_topline rd') =
           count_logical (rd_line_info rd) (rd_topline rd)"
proof -
  let ?rd0 = "redraw_flow_reset rd"
  let ?L = "count_logical (rd_line_info rd) (rd_topline rd)"
  have l0: "rd_lines ?rd0 = ?L" and la0: "rd_last_line ?rd0 = 0"
    and mx0: "rd_max_line ?rd0 = length (rd_line_info ?rd0)"
    and ff: "flow_flags ?rd0 = flow_flags rd" and sf: "rd_search_flag ?rd0 = rd_search_flag rd"
    using nw mx by (simp_all add: redraw_flow_reset_def map_upto_def flow_flags_def)
  have "0 \<le> logical_below (rd_line_info rd) (rd_topline rd)"
    by (simp add: logical_below_def)
  then have L0: "0 \<le> ?L"
    using top by (simp add: count_logical_below logical_below_Suc)
  have i0: "sc_max (scan_of ?rd0) = length (sc_info (scan_of ?rd0))" "sc_last (scan_of ?rd0) = 0"
    using mx0 la0 by (simp_all add: scan_of_simps)
  have "\<exists>rd'. flow_loop env 0 (-1) ?rd0 = Some (Inr rd') \<and>
               ?L < logical_below (rd_line_info rd') (rd_last_line rd')"
    using flow_loop_returns [OF i0 rM hit fin, of 0 ?rd0 "-1"] ff l0 sf L0
    by (simp add: logical_below_def)
  then obtain rd' where fl: "flow_loop env 0 (-1) ?rd0 = Some (Inr rd')"
    and h: "?L < logical_below (rd_line_info rd') (rd_last_line rd')"
    by blast
  have "logical_below (rd_line_info rd') (rd_last_line rd') \<le> rd_lines ?rd0 \<or>
            (l_continuation (rd_line_info rd' ! rd_topline rd') = 0 \<and>
             logical_below (rd_line_info rd') (Suc (rd_topline rd')) = rd_lines ?rd0 + 1)"
    using flow_loop_inv [OF fl] mx0 la0 L0 l0 by (simp add: logical_below_def)
  with h l0 fl show ?thesis by (simp add: count_logical_below redraw_flow_def)
qed

text \<open>Evaluation of the window of two columns on the file of two lines.\<close>

lemma decode_ascii:
  assumes "ch < cnt" and "cnt \<le> length buf"
    and "0 < (of_char (buf ! ch) :: nat)" and "(of_char (buf ! ch) :: nat) < 128"
  shows "decode (env_ex\<lparr> e_wrap_cols := w \<rparr>) m buf cnt ch = (MB_CHAR 1 (of_char (buf ! ch)), ())"
proof -
  from assms have l: "ch < length buf" by simp
  have d: "drop ch buf = buf ! ch # drop (Suc ch) buf"
    using l by (simp add: Cons_nth_drop_Suc)
  from assms have c: "cnt - ch = Suc (cnt - ch - 1)" by simp
  have "take (cnt - ch) (drop ch buf) = buf ! ch # take (cnt - ch - 1) (drop (Suc ch) buf)"
    by (subst c, subst d) simp
  with assms show ?thesis
    by (simp add: decode_def env_ex_def mbrtowc_utf8_def Let_def)
qed

lemma decode_end:
  "fst (decode (env_ex\<lparr> e_wrap_cols := w \<rparr>) m buf cnt cnt) = MB_INCOMPLETE"
  by (simp add: decode_def env_ex_def mbrtowc_utf8_def)

lemma fl_backspace_stop:
  assumes "fst (decode env mbs buf cnt (ch + k)) = MB_INCOMPLETE \<or>
           (\<exists>k1 wc1. fst (decode env mbs buf cnt (ch + k)) = MB_CHAR k1 wc1 \<and> wc1 \<noteq> 8)"
  shows "fl_backspace env buf cnt wc special ch k mbs = Some (wc, special, ch, k, mbs)"
  using assms by (subst fl_backspace.simps) auto

lemma fl_step_plain:
  fixes st :: "unit fl_state"
  assumes pa: "f_pa st = None" and ch: "f_ch st < cnt" and cnt: "cnt \<le> length buf"
    and lo: "32 < (of_char (buf ! f_ch st) :: nat)" and hi: "(of_char (buf ! f_ch st) :: nat) < 127"
    and nx: "Suc (f_ch st) < cnt \<longrightarrow>
             0 < (of_char (buf ! Suc (f_ch st)) :: nat) \<and> (of_char (buf ! Suc (f_ch st)) :: nat) < 128 \<and>
             (of_char (buf ! Suc (f_ch st)) :: nat) \<noteq> 8"
  shows "fl_step (env_ex\<lparr> e_wrap_cols := w \<rparr>) flags buf cnt wrap st =
         Some (if f_col st + 1 > wrap then (True, st\<lparr> f_special := {} \<rparr>)
               else (False, st\<lparr> f_special := {}, f_col := f_col st + 1,
                                  f_ch := f_ch st + 1, f_vch := f_vch st + 1 \<rparr>))"
proof -
  let ?env = "env_ex\<lparr> e_wrap_cols := w \<rparr>"
  let ?v = "of_char (buf ! f_ch st) :: nat"
  from ch cnt have b: "byte_at buf (f_ch st) = buf ! f_ch st" by (simp add: byte_at_def)
  have ne: "buf ! f_ch st \<noteq> CHR 0x1B" using lo by auto
  have sk1: "\<And>allow pa out. fl_skip_ansi allow buf cnt (f_ch st) pa out = (f_ch st, pa, out)"
    by (rule fl_skip_ansi_none) (simp add: b ne)
  have sk2: "\<And>am pm. fl_skip_marker am pm buf cnt (f_ch st) = f_ch st"
    by (rule fl_skip_marker_none) (simp add: b ne)
  have dec: "\<And>m. decode ?env m buf cnt (f_ch st) = (MB_CHAR 1 ?v, ())"
    using decode_ascii [OF ch cnt, of w] lo hi by simp
  have bs: "fl_backspace ?env buf cnt ?v {} (f_ch st) (Suc 0) () = Some (?v, {}, f_ch st, Suc 0, ())"
  proof (rule fl_backspace_stop, cases "Suc (f_ch st) < cnt")
    case True
    with nx decode_ascii [of "Suc (f_ch st)" cnt buf w "()"] cnt
    show "fst (decode ?env () buf cnt (f_ch st + Suc 0)) = MB_INCOMPLETE \<or>
           (\<exists>k1 wc1. fst (decode ?env () buf cnt (f_ch st + Suc 0)) = MB_CHAR k1 wc1 \<and> wc1 \<noteq> 8)"
      by auto
  next
    case False
    with ch have "f_ch st + 1 = cnt" by simp
    then show "fst (decode ?env () buf cnt (f_ch st + Suc 0)) = MB_INCOMPLETE \<or>
           (\<exists>k1 wc1. fst (decode ?env () buf cnt (f_ch st + Suc 0)) = MB_CHAR k1 wc1 \<and> wc1 \<noteq> 8)"
      using decode_end [of w "()" buf cnt] by simp
  qed
  have env: "e_IsWPrint env_ex ?v" "e_CharsetIsUtf8 env_ex" "\<not> e_display_corrupting env_ex ?v"
    "e_wcwidth env_ex ?v = 1" "e_mbs0 env_ex = ()"
    using lo hi by (simp_all add: env_ex_def)
  have v: "?v \<noteq> 0x200B" "?v \<noteq> 0xFEFF" "?v \<noteq> 32" using lo hi by simp_all
  show ?thesis
    using ch v
    by (simp add: fl_step_def sk1 sk2 dec bs env Let_def fl_resolve_def pa fl_emit_def emit_def
          advance_def)
qed

lemma fl_step_newline:
  fixes st :: "unit fl_state"
  assumes pa: "f_pa st = None" and ch: "f_ch st < cnt" and cnt: "cnt \<le> length buf"
    and nl: "buf ! f_ch st = CHR 0x0A"
  shows "fl_step (env_ex\<lparr> e_wrap_cols := w \<rparr>) flags buf cnt wrap st =
         Some (True, st\<lparr> f_special := {} \<rparr>)"
proof -
  let ?env = "env_ex\<lparr> e_wrap_cols := w \<rparr>"
  from ch cnt have b: "byte_at buf (f_ch st) = buf ! f_ch st" by (simp add: byte_at_def)
  have sk1: "\<And>allow pa out. fl_skip_ansi allow buf cnt (f_ch st) pa out = (f_ch st, pa, out)"
    by (rule fl_skip_ansi_none) (simp add: b nl)
  have sk2: "\<And>am pm. fl_skip_marker am pm buf cnt (f_ch st) = f_ch st"
    by (rule fl_skip_marker_none) (simp add: b nl)
  have dec: "\<And>m. decode ?env m buf cnt (f_ch st) = (MB_CHAR 1 10, ())"
    using decode_ascii [OF ch cnt, of w] nl by simp
  have env: "\<not> e_IsWPrint env_ex 10" "e_CharsetIsUtf8 env_ex" "\<not> e_display_corrupting env_ex 10"
    by (simp_all add: env_ex_def)
  show ?thesis
    using ch
    by (simp add: fl_step_def sk1 sk2 dec env Let_def fl_resolve_def pa fl_emit_def)
qed

lemma format_line_abc:
  assumes "l_continuation (info ! 0) = 0"
  shows "format_line (env_ex\<lparr> e_wrap_cols := (\<lambda>nowrap. 2) \<rparr>) info 0
           [CHR ''a'', CHR ''b'', CHR ''c'', CHR 0x0A] flags None 4 =
         Some \<lparr> f_ch = 2, f_vch = 2, f_col = 2, f_space = -1, f_special = {},
                f_last_special = None, f_mbstate = (), f_pa = None, f_out = [] \<rparr>"
proof -
  let ?env = "env_ex\<lparr> e_wrap_cols := (\<lambda>nowrap. 2) \<rparr>"
  let ?buf = "[CHR ''a'', CHR ''b'', CHR ''c'', CHR 0x0A]"
  let ?st = "\<lambda>k c. \<lparr> f_ch = k, f_vch = k, f_col = c, f_space = -1, f_special = {},
                f_last_special = None, f_mbstate = (), f_pa = None, f_out = [] \<rparr> :: unit fl_state"
  have s0: "fl_step ?env flags ?buf 4 2 (?st 0 0) = Some (False, ?st (Suc 0) 1)"
    by (subst fl_step_plain) simp_all
  have s1: "fl_step ?env flags ?buf 4 2 (?st (Suc 0) 1) = Some (False, ?st 2 2)"
    by (subst fl_step_plain) simp_all
  have s2: "fl_step ?env flags ?buf 4 2 (?st 2 2) = Some (True, ?st 2 2)"
    by (subst fl_step_plain) simp_all
  have "fl_loop ?env flags ?buf 4 2 (?st 0 0) = Some (?st 2 2)"
    apply (subst fl_loop.simps, simp add: s0)
    apply (subst fl_loop.simps, simp add: s1)
    apply (subst fl_loop.simps, simp add: s2)
    done
  moreover have "check_marker (e_AttachmentMarker env_ex) ?buf \<noteq> 0"
    by (simp add: env_ex_def)
  ultimately show ?thesis
    using assms by (simp add: format_line_def env_ex_def)
qed

lemma format_line_abc':
  assumes "l_continuation (info ! 0) = 0"
  shows "format_line (env_ex\<lparr> e_wrap_cols := (\<lambda>nowrap. 2) \<rparr>) info 0
           [CHR ''a'', CHR ''b'', CHR ''c'', CHR 0x0A] flags None (Suc (Suc (Suc (Suc 0)))) =
         Some \<lparr> f_ch = 2, f_vch = 2, f_col = 2, f_space = -1, f_special = {},
                f_last_special = None, f_mbstate = (), f_pa = None, f_out = [] \<rparr>"
proof -
  have "Suc (Suc (Suc (Suc 0))) = 4" by simp
  then show ?thesis using format_line_abc [OF assms] by metis
qed

lemma format_line_short:
  assumes "32 < (of_char X :: nat)" and "(of_char X :: nat) < 127"
    and "l_continuation (info ! n) = c" and "c = 0 \<or> c = 1"
  shows "format_line (env_ex\<lparr> e_wrap_cols := (\<lambda>nowrap. 2) \<rparr>) info n [X, CHR 0x0A] flags None 2 =
         Some \<lparr> f_ch = Suc 0, f_vch = Suc 0, f_col = c + 1, f_space = -1, f_special = {},
                f_last_special = None, f_mbstate = (), f_pa = None, f_out = [] \<rparr>"
proof -
  let ?env = "env_ex\<lparr> e_wrap_cols := (\<lambda>nowrap. 2) \<rparr>"
  let ?buf = "[X, CHR 0x0A]"
  let ?st = "\<lambda>k c. \<lparr> f_ch = k, f_vch = k, f_col = c, f_space = -1, f_special = {},
                f_last_special = None, f_mbstate = (), f_pa = None, f_out = [] \<rparr> :: unit fl_state"
  have s0: "fl_step ?env flags ?buf 2 2 (?st 0 c) = Some (False, ?st (Suc 0) (c + 1))"
    using assms by (subst fl_step_plain) auto
  have s1: "fl_step ?env flags ?buf 2 2 (?st (Suc 0) (c + 1)) = Some (True, ?st (Suc 0) (c + 1))"
    by (subst fl_step_newline) simp_all
  have "fl_loop ?env flags ?buf 2 2 (?st 0 c) = Some (?st (Suc 0) (c + 1))"
    apply (subst fl_loop.simps, simp add: s0)
    apply (subst fl_loop.simps, simp add: s1)
    done
  moreover have "check_marker (e_AttachmentMarker env_ex) ?buf \<noteq> 0"
    using assms by (auto simp: env_ex_def)
  ultimately show ?thesis
    using assms by (simp add: format_line_def env_ex_def)
qed

lemma format_line_short':
  assumes "32 < (of_char X :: nat)" and "(of_char X :: nat) < 127"
    and "l_continuation (info ! n) = c" and "c = 0 \<or> c = 1"
  shows "format_line (env_ex\<lparr> e_wrap_cols := (\<lambda>nowrap. 2) \<rparr>) info n [X, CHR 0x0A] flags None
           (Suc (Suc 0)) =
         Some \<lparr> f_ch = Suc 0, f_vch = Suc 0, f_col = c + 1, f_space = -1, f_special = {},
                f_last_special = None, f_mbstate = (), f_pa = None, f_out = [] \<rparr>"
proof -
  have "Suc (Suc 0) = 2" by simp
  then show ?thesis using format_line_short [OF assms] by metis
qed

lemmas dl_defs = display_line_scan_def then_stage_def dl_grow_def dl_types_def dl_search_def
  dl_measure_def with_buffer_def dl_fail_def fill_buffer_def penv_ex_def read_file_def file_ex_def
  fill_buffer_copy_def wrap_break_def append_line_def Let_def byte_at_def line_ex_def line_new_def
  set_color0_def color0_def resolve_types_def resolve_type_def resolve_header_def ISHEADER_def
  cfg_ex_def fmt_after_resolve_def race_types.simps search_loop.simps

lemma scan0:
  "display_line_scan penv_ex 0 {MUTT_TYPES, MUTT_SEARCH}
     \<lparr> sc_info = [line_ex 0 MT_COLOR_UNSET, line_ex 0 MT_COLOR_UNSET, line_ex 0 MT_COLOR_UNSET],
       sc_last = 0, sc_max = 3, sc_quote = quote_init \<rparr> =
   Some (Inr (0,
     \<lparr> sc_info = [(line_ex 0 MT_COLOR_HDEFAULT)\<lparr> l_search_cnt := 0 \<rparr>,
          (line_ex 2 MT_COLOR_HDEFAULT)
            \<lparr> l_continuation := 1, l_syntax := [\<lparr> s_color = 0, s_first = 0, s_last = 2 \<rparr>] \<rparr>,
          line_ex 0 MT_COLOR_UNSET],
       sc_last = Suc 0, sc_max = 3, sc_quote = quote_init \<rparr>))"
  by (simp add: dl_defs format_line_abc')

lemma scan1:
  "display_line_scan penv_ex (Suc 0) {MUTT_TYPES, MUTT_SEARCH}
     \<lparr> sc_info = [(line_ex 0 MT_COLOR_HDEFAULT)\<lparr> l_search_cnt := 0 \<rparr>,
          (line_ex 2 MT_COLOR_HDEFAULT)
            \<lparr> l_continuation := 1, l_syntax := [\<lparr> s_color = 0, s_first = 0, s_last = 2 \<rparr>] \<rparr>,
          line_ex 0 MT_COLOR_UNSET],
       sc_last = Suc 0, sc_max = 3, sc_quote = quote_init \<rparr> =
   Some (Inr (0,
     \<lparr> sc_info = [(line_ex 0 MT_COLOR_HDEFAULT)\<lparr> l_search_cnt := 0 \<rparr>,
          (line_ex 2 MT_COLOR_HDEFAULT)
            \<lparr> l_continuation := 1, l_syntax := [\<lparr> s_color = 0, s_first = 0, s_last = 2 \<rparr>] \<rparr>,
          line_ex 4 MT_COLOR_UNSET],
       sc_last = 2, sc_max = 3, sc_quote = quote_init \<rparr>))"
  by (simp add: dl_defs format_line_short' [where c = 1])

lemma scan2:
  "display_line_scan penv_ex (Suc (Suc 0)) {MUTT_TYPES, MUTT_SEARCH}
     \<lparr> sc_info = [(line_ex 0 MT_COLOR_HDEFAULT)\<lparr> l_search_cnt := 0 \<rparr>,
          (line_ex 2 MT_COLOR_HDEFAULT)
            \<lparr> l_continuation := 1, l_syntax := [\<lparr> s_color = 0, s_first = 0, s_last = 2 \<rparr>] \<rparr>,
          line_ex 4 MT_COLOR_UNSET],
       sc_last = 2, sc_max = 3, sc_quote = quote_init \<rparr> =
   Some (Inr (0,
     \<lparr> sc_info = [(line_ex 0 MT_COLOR_HDEFAULT)\<lparr> l_search_cnt := 0 \<rparr>,
          (line_ex 2 MT_COLOR_HDEFAULT)
            \<lparr> l_continuation := 1, l_syntax := [\<lparr> s_color = 0, s_first = 0, s_last = 2 \<rparr>] \<rparr>,
          (line_ex 4 MT_COLOR_HDEFAULT)\<lparr> l_search_cnt := 0 \<rparr>,
          line_ex 6 MT_COLOR_UNSET, line_ex 0 MT_COLOR_UNSET],
       sc_last = 3, sc_max = 5, sc_quote = quote_init \<rparr>))"
  by (simp add: dl_defs format_line_short' [where c = 0] eval_nat_numeral)

lemma scan3:
  "display_line_scan penv_ex 3 {MUTT_TYPES, MUTT_SEARCH}
     \<lparr> sc_info = [(line_ex 0 MT_COLOR_HDEFAULT)\<lparr> l_search_cnt := 0 \<rparr>,
          (line_ex 2 MT_COLOR_HDEFAULT)
            \<lparr> l_continuation := 1, l_syntax := [\<lparr> s_color = 0, s_first = 0, s_last = 2 \<rparr>] \<rparr>,
          (line_ex 4 MT_COLOR_HDEFAULT)\<lparr> l_search_cnt := 0 \<rparr>,
          line_ex 6 MT_COLOR_UNSET, line_ex 0 MT_COLOR_UNSET],
       sc_last = 3, sc_max = 5, sc_quote = quote_init \<rparr> =
   Some (Inr (- 1,
     \<lparr> sc_info = [(line_ex 0 MT_COLOR_HDEFAULT)\<lparr> l_search_cnt := 0 \<rparr>,
          (line_ex 2 MT_COLOR_HDEFAULT)
            \<lparr> l_continuation := 1, l_syntax := [\<lparr> s_color = 0, s_first = 0, s_last = 2 \<rparr>] \<rparr>,
          (line_ex 4 MT_COLOR_HDEFAULT)\<lparr> l_search_cnt := 0 \<rparr>,
          line_ex 6 MT_COLOR_UNSET, line_ex 0 MT_COLOR_UNSET],
       sc_last = 3, sc_max = 5, sc_quote = quote_init \<rparr>))"
  by (simp add: dl_defs eval_nat_numeral)

lemma reset_wide:
  "scan_of (redraw_flow_reset rd_wide) =
     \<lparr> sc_info = [line_ex 0 MT_COLOR_UNSET, line_ex 0 MT_COLOR_UNSET, line_ex 0 MT_COLOR_UNSET],
       sc_last = 0, sc_max = 3, sc_quote = quote_init \<rparr>"
  by (simp add: scan_of_def redraw_flow_reset_def rd_wide_def map_upto_def reset_line_def line_ex_def)

lemma replay_wide:
  "replay penv_ex {MUTT_TYPES, MUTT_SEARCH} 3 (scan_of (redraw_flow_reset rd_wide)) =
   Some \<lparr> sc_info = [(line_ex 0 MT_COLOR_HDEFAULT)\<lparr> l_search_cnt := 0 \<rparr>,
          (line_ex 2 MT_COLOR_HDEFAULT)
            \<lparr> l_continuation := 1, l_syntax := [\<lparr> s_color = 0, s_first = 0, s_last = 2 \<rparr>] \<rparr>,
          (line_ex 4 MT_COLOR_HDEFAULT)\<lparr> l_search_cnt := 0 \<rparr>,
          line_ex 6 MT_COLOR_UNSET, line_ex 0 MT_COLOR_UNSET],
       sc_last = 3, sc_max = 5, sc_quote = quote_init \<rparr>"
proof -
  let ?F = "{MUTT_TYPES, MUTT_SEARCH}"
  let ?sc0 = "scan_of (redraw_flow_reset rd_wide)"
  have r1: "replay penv_ex ?F (Suc 0) ?sc0 =
    Some \<lparr> sc_info = [(line_ex 0 MT_COLOR_HDEFAULT)\<lparr> l_search_cnt := 0 \<rparr>,
          (line_ex 2 MT_COLOR_HDEFAULT)
            \<lparr> l_continuation := 1, l_syntax := [\<lparr> s_color = 0, s_first = 0, s_last = 2 \<rparr>] \<rparr>,
          line_ex 0 MT_COLOR_UNSET],
       sc_last = Suc 0, sc_max = 3, sc_quote = quote_init \<rparr>"
    by (simp add: reset_wide scan0)
  have r2: "replay penv_ex ?F (Suc (Suc 0)) ?sc0 =
    Some \<lparr> sc_info = [(line_ex 0 MT_COLOR_HDEFAULT)\<lparr> l_search_cnt := 0 \<rparr>,
          (line_ex 2 MT_COLOR_HDEFAULT)
            \<lparr> l_continuation := 1, l_syntax := [\<lparr> s_color = 0, s_first = 0, s_last = 2 \<rparr>] \<rparr>,
          line_ex 4 MT_COLOR_UNSET],
       sc_last = 2, sc_max = 3, sc_quote = quote_init \<rparr>"
    by (subst replay.simps(2), subst r1) (simp add: scan1)
  have r3: "replay penv_ex ?F (Suc (Suc (Suc 0))) ?sc0 =
    Some \<lparr> sc_info = [(line_ex 0 MT_COLOR_HDEFAULT)\<lparr> l_search_cnt := 0 \<rparr>,
          (line_ex 2 MT_COLOR_HDEFAULT)
            \<lparr> l_continuation := 1, l_syntax := [\<lparr> s_color = 0, s_first = 0, s_last = 2 \<rparr>] \<rparr>,
          (line_ex 4 MT_COLOR_HDEFAULT)\<lparr> l_search_cnt := 0 \<rparr>,
          line_ex 6 MT_COLOR_UNSET, line_ex 0 MT_COLOR_UNSET],
       sc_last = 3, sc_max = 5, sc_quote = quote_init \<rparr>"
    by (subst replay.simps(2), subst r2) (simp add: scan2)
  then show ?thesis by (metis numeral_3_eq_3)
qed

lemma reflow_two_columns:
  "rd_topline rd_wide = 1 \<and> count_logical (rd_line_info rd_wide) (rd_topline rd_wide) = 1 \<and>
   (\<exists>scM. replay penv_ex (flow_flags rd_wide) 3 (scan_of (redraw_flow_reset rd_wide)) = Some scM \<and>
      logical_below (sc_info scM) 3 = 2 \<and>
      (\<exists>scE. display_line_scan penv_ex 3 (flow_flags rd_wide) scM = Some (Inr (- 1, scE)))) \<and>
   (\<exists>rd'. redraw_flow penv_ex rd_wide = Some (Inr rd') \<and>
      l_continuation (rd_line_info rd' ! rd_topline rd') = 0 \<and>
      count_logical (rd_line_info rd') (rd_topline rd') = 1)"
proof -
  let ?scM = "\<lparr> sc_info = [(line_ex 0 MT_COLOR_HDEFAULT)\<lparr> l_search_cnt := 0 \<rparr>,
          (line_ex 2 MT_COLOR_HDEFAULT)
            \<lparr> l_continuation := 1, l_syntax := [\<lparr> s_color = 0, s_first = 0, s_last = 2 \<rparr>] \<rparr>,
          (line_ex 4 MT_COLOR_HDEFAULT)\<lparr> l_search_cnt := 0 \<rparr>,
          line_ex 6 MT_COLOR_UNSET, line_ex 0 MT_COLOR_UNSET],
       sc_last = 3, sc_max = 5, sc_quote = quote_init \<rparr>"
  have ff: "flow_flags rd_wide = {MUTT_TYPES, MUTT_SEARCH}"
    by (auto simp: flow_flags_def rd_wide_def)
  have pre: "MUTT_PAGER_RETWINCH \<notin> rd_flags rd_wide"
    "rd_max_line rd_wide = length (rd_line_info rd_wide)"
    "rd_has_types rd_wide \<subseteq> {MUTT_TYPES}" "rd_search_flag rd_wide \<subseteq> {MUTT_SEARCH}"
    "l_continuation (rd_line_info rd_wide ! rd_topline rd_wide) = 0"
    "rd_topline rd_wide = 1" "rd_search_flag rd_wide \<noteq> {}"
    by (simp_all add: rd_wide_def line_ex_def)
  have L: "count_logical (rd_line_info rd_wide) (rd_topline rd_wide) = 1"
    by (simp add: rd_wide_def line_ex_def count_logical_def)
  have rM: "replay penv_ex (flow_flags rd_wide) 3 (scan_of (redraw_flow_reset rd_wide)) = Some ?scM"
    by (simp only: ff replay_wide)
  have below: "logical_below (sc_info ?scM) 3 = 2"
    by (simp add: logical_below_def line_ex_def eval_nat_numeral)
  have fin: "display_line_scan penv_ex 3 (flow_flags rd_wide) ?scM = Some (Inr (- 1, ?scM))"
    by (simp only: ff scan3)
  have "\<exists>rd'. redraw_flow penv_ex rd_wide = Some (Inr rd') \<and>
      l_continuation (rd_line_info rd' ! rd_topline rd') = 0 \<and>
      count_logical (rd_line_info rd') (rd_topline rd') =
      count_logical (rd_line_info rd_wide) (rd_topline rd_wide)"
    using reflow_keeps_logical_line [OF pre(1-5) rM] L below fin by simp
  with pre(6) L rM below fin show ?thesis by (simp only: L) blast
qed

text \<open>Evaluation of the window of one column.\<close>

lemma format_line_narrow_cont:
  assumes "l_continuation (info ! n) = 1"
  shows "format_line (env_ex\<lparr> e_wrap_cols := (\<lambda>nowrap. 1) \<rparr>) info n
           [CHR ''b'', CHR ''c'', CHR 0x0A] flags None 3 =
         Some \<lparr> f_ch = 0, f_vch = 0, f_col = 1, f_space = -1, f_special = {},
                f_last_special = None, f_mbstate = (), f_pa = None, f_out = [] \<rparr>"
proof -
  let ?env = "env_ex\<lparr> e_wrap_cols := (\<lambda>nowrap. 1) \<rparr>"
  let ?buf = "[CHR ''b'', CHR ''c'', CHR 0x0A]"
  let ?st = "\<lambda>k c. \<lparr> f_ch = k, f_vch = k, f_col = c, f_space = -1, f_special = {},
                f_last_special = None, f_mbstate = (), f_pa = None, f_out = [] \<rparr> :: unit fl_state"
  have s0: "fl_step ?env flags ?buf 3 1 (?st 0 1) = Some (True, ?st 0 1)"
    by (subst fl_step_plain) simp_all
  have "fl_loop ?env flags ?buf 3 1 (?st 0 1) = Some (?st 0 1)"
    by (subst fl_loop.simps, simp add: s0)
  moreover have "check_marker (e_AttachmentMarker env_ex) ?buf \<noteq> 0"
    by (simp add: env_ex_def)
  ultimately show ?thesis
    using assms by (simp add: format_line_def env_ex_def)
qed

lemma format_line_narrow_cont':
  assumes "l_continuation (info ! n) = 1"
  shows "format_line (env_ex\<lparr> e_wrap_cols := (\<lambda>nowrap. 1) \<rparr>) info n
           [CHR ''b'', CHR ''c'', CHR 0x0A] flags None (Suc (Suc (Suc 0))) =
         Some \<lparr> f_ch = 0, f_vch = 0, f_col = 1, f_space = -1, f_special = {},
                f_last_special = None, f_mbstate = (), f_pa = None, f_out = [] \<rparr>"
proof -
  have "Suc (Suc (Suc 0)) = 3" by simp
  then show ?thesis using format_line_narrow_cont [OF assms] by metis
qed

lemma format_line_narrow_first:
  assumes "l_continuation (info ! 0) = 0"
  shows "format_line (env_ex\<lparr> e_wrap_cols := (\<lambda>nowrap. 1) \<rparr>) info 0
           [CHR ''a'', CHR ''b'', CHR ''c'', CHR 0x0A] flags None 4 =
         Some \<lparr> f_ch = Suc 0, f_vch = Suc 0, f_col = 1, f_space = -1, f_special = {},
                f_last_special = None, f_mbstate = (), f_pa = None, f_out = [] \<rparr>"
proof -
  let ?env = "env_ex\<lparr> e_wrap_cols := (\<lambda>nowrap. 1) \<rparr>"
  let ?buf = "[CHR ''a'', CHR ''b'', CHR ''c'', CHR 0x0A]"
  let ?st = "\<lambda>k c. \<lparr> f_ch = k, f_vch = k, f_col = c, f_space = -1, f_special = {},
                f_last_special = None, f_mbstate = (), f_pa = None, f_out = [] \<rparr> :: unit fl_state"
  have s0: "fl_step ?env flags ?buf 4 1 (?st 0 0) = Some (False, ?st (Suc 0) 1)"
    by (subst fl_step_plain) simp_all
  have s1: "fl_step ?env flags ?buf 4 1 (?st (Suc 0) 1) = Some (True, ?st (Suc 0) 1)"
    by (subst fl_step_plain) simp_all
  have "fl_loop ?env flags ?buf 4 1 (?st 0 0) = Some (?st (Suc 0) 1)"
    apply (subst fl_loop.simps, simp add: s0)
    apply (subst fl_loop.simps, simp add: s1)
    done
  moreover have "check_marker (e_AttachmentMarker env_ex) ?buf \<noteq> 0"
    by (simp add: env_ex_def)
  ultimately show ?thesis
    using assms by (simp add: format_line_def env_ex_def)
qed

lemma format_line_narrow_first':
  assumes "l_continuation (info ! 0) = 0"
  shows "format_line (env_ex\<lparr> e_wrap_cols := (\<lambda>nowrap. 1) \<rparr>) info 0
           [CHR ''a'', CHR ''b'', CHR ''c'', CHR 0x0A] flags None (Suc (Suc (Suc (Suc 0)))) =
         Some \<lparr> f_ch = Suc 0, f_vch = Suc 0, f_col = 1, f_space = -1, f_special = {},
                f_last_special = None, f_mbstate = (), f_pa = None, f_out = [] \<rparr>"
proof -
  have "Suc (Suc (Suc (Suc 0))) = 4" by simp
  then show ?thesis using format_line_narrow_first [OF assms] by metis
qed

lemmas dl_defs_narrow = display_line_scan_def then_stage_def dl_grow_def dl_types_def dl_search_def
  dl_measure_def with_buffer_def dl_fail_def fill_buffer_def penv_narrow_def read_file_def file_ex_def
  fill_buffer_copy_def wrap_break_def append_line_def Let_def byte_at_def line_ex_def line_new_def
  set_color0_def color0_def resolve_types_def resolve_type_def resolve_header_def ISHEADER_def
  cfg_ex_def fmt_after_resolve_def race_types.simps search_loop.simps

lemma narrow_scan0:
  "display_line_scan penv_narrow 0 {MUTT_TYPES, MUTT_SEARCH}
     \<lparr> sc_info = [line_ex 0 MT_COLOR_UNSET, line_ex 0 MT_COLOR_UNSET, line_ex 0 MT_COLOR_UNSET],
       sc_last = 0, sc_max = 3, sc_quote = quote_init \<rparr> =
   Some (Inr (0,
     \<lparr> sc_info = [(line_ex 0 MT_COLOR_HDEFAULT)\<lparr> l_search_cnt := 0 \<rparr>,
          (line_ex 1 MT_COLOR_HDEFAULT)
            \<lparr> l_continuation := 1, l_syntax := [\<lparr> s_color = 0, s_first = 0, s_last = 1 \<rparr>] \<rparr>,
          line_ex 0 MT_COLOR_UNSET],
       sc_last = Suc 0, sc_max = 3, sc_quote = quote_init \<rparr>))"
  by (simp add: dl_defs_narrow format_line_narrow_first')

lemma narrow_scan0_plain:
  "display_line_scan penv_narrow 0 {MUTT_TYPES}
     \<lparr> sc_info = [line_ex 0 MT_COLOR_UNSET, line_ex 0 MT_COLOR_UNSET, line_ex 0 MT_COLOR_UNSET],
       sc_last = 0, sc_max = 3, sc_quote = quote_init \<rparr> =
   Some (Inr (0,
     \<lparr> sc_info = [line_ex 0 MT_COLOR_HDEFAULT,
          (line_ex 1 MT_COLOR_HDEFAULT)
            \<lparr> l_continuation := 1, l_syntax := [\<lparr> s_color = 0, s_first = 0, s_last = 1 \<rparr>] \<rparr>,
          line_ex 0 MT_COLOR_UNSET],
       sc_last = Suc 0, sc_max = 3, sc_quote = quote_init \<rparr>))"
  by (simp add: dl_defs_narrow format_line_narrow_first')

lemma narrow_step:
  assumes inv: "narrow_inv i rd"
  shows "\<exists>sc'. display_line_scan penv_narrow i (flow_flags rd) (scan_of rd) = Some (Inr (0, sc')) \<and>
           l_continuation (sc_info sc' ! i) \<noteq> 0 \<and> narrow_inv (Suc i) (put_scan sc' rd)"
proof -
  let ?info = "rd_line_info rd"
  from inv have i: "0 < i" "i < length ?info"
    and la: "rd_last_line rd = i" and mx: "rd_max_line rd = length ?info"
    and li: "l_offset (?info ! i) = 1" "l_continuation (?info ! i) = 1"
      "l_type (?info ! i) = MT_COLOR_HDEFAULT"
    and fresh: "\<And>k. i < k \<Longrightarrow> k < length ?info \<Longrightarrow> ?info ! k = line_new"
    by (simp_all add: narrow_inv_def)
  define g where "g = (if Suc i = length ?info then ?info @ replicate 2 line_new else ?info)"
  have gl: "Suc i < length g" using i by (auto simp: g_def)
  have gi: "l_offset (g ! i) = 1" "l_continuation (g ! i) = 1" "l_type (g ! i) = MT_COLOR_HDEFAULT"
    using i li by (simp_all add: g_def nth_append)
  have gn: "\<And>k. i < k \<Longrightarrow> k < length g \<Longrightarrow> g ! k = line_new"
    using fresh by (auto simp: g_def nth_append nth_replicate)
  have rl: "read_file file_ex 1 = Some [CHR ''b'', CHR ''c'', CHR 0x0A]"
    by (simp add: read_file_def file_ex_def)
  have fc: "fill_buffer_copy (e_AttachmentMarker env_ex) (e_ProtectedHeaderMarker env_ex)
              [CHR ''b'', CHR ''c'', CHR 0x0A] = Inr [CHR ''b'', CHR ''c'', CHR 0x0A]"
    by (simp add: fill_buffer_copy_def env_ex_def)
  let ?F = "flow_flags rd"
  let ?buf = "[CHR ''b'', CHR ''c'', CHR 0x0A]"
  let ?sc = "\<lparr> sc_info = g, sc_last = Suc i, sc_max = length g, sc_quote = rd_quote rd \<rparr>"
  let ?s0 = "\<lparr> d_sc = ?sc, d_flags = ?F, d_change_last = True, d_buf = None \<rparr>"
  have grow: "dl_grow penv_narrow i ?F (scan_of rd) = ?s0"
    using la mx by (auto simp: dl_grow_def scan_of_def Let_def penv_narrow_def g_def)
  have ty: "dl_types penv_narrow i ?s0 = Some (Inr (Next ?s0))"
    using gl gi by (simp add: dl_types_def then_stage_def)
  have se: "dl_search penv_narrow i ?s0 = Some (Inr (Next ?s0))"
    using gl gi by (simp add: dl_search_def)
  define X where "X = (append_line g i 0)[Suc i := (append_line g i 0 ! Suc i)\<lparr> l_offset := 1 \<rparr>]"
  have fl: "format_line (env_ex\<lparr> e_wrap_cols := (\<lambda>nowrap. 1) \<rparr>) g i ?buf ?F None
              (Suc (Suc (Suc 0))) =
         Some \<lparr> f_ch = 0, f_vch = 0, f_col = 1, f_space = -1, f_special = {},
                f_last_special = None, f_mbstate = (), f_pa = None, f_out = [] \<rparr>"
    using gi(2) by (rule format_line_narrow_cont')
  have wb: "\<And>t. wrap_break False ?F t ?buf (Suc (Suc (Suc 0))) 0 (-1) = 0"
    by (simp add: wrap_break_def byte_at_def)
  have ap: "l_offset (append_line g i 0 ! i) = 1"
    using gi by (simp add: append_line_def)
  have gS: "l_offset (g ! Suc i) = 0" "l_continuation (g ! Suc i) = 0"
    using gn [of "Suc i"] gl by (simp_all add: line_new_def)
  have me: "dl_measure penv_narrow i ?s0 = Some (Inr (Return 0 (?sc\<lparr> sc_info := X \<rparr>)))"
    using gl gS gi(1) rl fc fl wb ap
    by (simp add: dl_measure_def with_buffer_def fill_buffer_def penv_narrow_def X_def Let_def)
  have d: "display_line_scan penv_narrow i (flow_flags rd) (scan_of rd) =
      Some (Inr (0, ?sc\<lparr> sc_info := X \<rparr>))"
    by (simp only: display_line_scan_def grow ty se me then_stage_def option.case sum.case
          stage.case)
  have Xl: "length X = length g" by (simp add: X_def append_line_def)
  have Xi: "l_continuation (X ! i) = 1" using gi gl by (simp add: X_def append_line_def)
  have XS: "l_offset (X ! Suc i) = 1" "l_continuation (X ! Suc i) = 1"
    "l_type (X ! Suc i) = MT_COLOR_HDEFAULT"
    using gl gi by (simp_all add: X_def append_line_def set_color0_def Let_def)
  have Xn: "\<And>k. Suc i < k \<Longrightarrow> k < length X \<Longrightarrow> X ! k = line_new"
    using gn by (simp add: X_def append_line_def)
  have "narrow_inv (Suc i) (put_scan (?sc\<lparr> sc_info := X \<rparr>) rd)"
    unfolding narrow_inv_def
    using gl Xl XS Xn
    by (simp add: put_scan_def)
  moreover have "l_continuation (sc_info (?sc\<lparr> sc_info := X \<rparr>) ! i) \<noteq> 0"
    using Xi by simp
  ultimately show ?thesis using d by blast
qed


lemma flow_loop_narrow:
  assumes "flow_loop env i j rd = Some y"
  shows "env = penv_narrow \<longrightarrow> \<not> narrow_inv i rd"
proof (rule flow_loop.raw_induct [where P = "\<lambda>env i j rd y. env = penv_narrow \<longrightarrow> \<not> narrow_inv i rd",
         OF _ assms], goal_cases)
  case (1 loop env i j rd y)
  show ?case
  proof (intro impI notI)
    assume e: "env = penv_narrow" and inv: "narrow_inv i rd"
    from narrow_step [OF inv] obtain sc' where
      d: "display_line_scan penv_narrow i (flow_flags rd) (scan_of rd) = Some (Inr (0, sc'))"
      and c: "l_continuation (sc_info sc' ! i) \<noteq> 0"
      and inv': "narrow_inv (Suc i) (put_scan sc' rd)"
      by blast
    from 1(2) e d c have "loop penv_narrow (i + 1) j (put_scan sc' rd) = Some y" by simp
    from 1(1) [OF this] inv' show False by simp
  qed
qed

lemma flow_loop_narrow_None:
  assumes "narrow_inv i rd"
  shows "flow_loop penv_narrow i j rd = None"
proof (cases "flow_loop penv_narrow i j rd")
  case None
  then show ?thesis .
next
  case (Some y)
  from flow_loop_narrow [OF Some] assms show ?thesis by simp
qed

text \<open>
  C9 fails on the code in a window that is too narrow.  The file \<^verbatim>\<open>abc\<close>, \<^verbatim>\<open>d\<close>
  was shown in a wide window with its second line on top, a record that is not a
  continuation, of logical index 1.  In a window of one column the first record takes
  \<^verbatim>\<open>a\<close>.  Every later record is a continuation that starts in column 1 behind its
  marker, so that \<^verbatim>\<open>format_line\<close> takes no character; \<^verbatim>\<open>display_line\<close> makes
  the next record a continuation at the same offset and returns 0.  The replay loop
  does not end, with or without an active search, and the top line is not restored.
\<close>

theorem reflow_narrow_window_never_returns:
  "l_continuation (rd_line_info rd_wide ! rd_topline rd_wide) = 0 \<and>
   count_logical (rd_line_info rd_wide) (rd_topline rd_wide) = 1 \<and>
   redraw_flow penv_narrow rd_wide = None \<and>
   redraw_flow penv_narrow (rd_wide\<lparr> rd_search_flag := {} \<rparr>) = None"
proof -
  let ?rd0 = "redraw_flow_reset rd_wide"
  let ?rp = "redraw_flow_reset (rd_wide\<lparr> rd_search_flag := {} \<rparr>)"
  let ?l1 = "(line_ex 1 MT_COLOR_HDEFAULT)
            \<lparr> l_continuation := 1, l_syntax := [\<lparr> s_color = 0, s_first = 0, s_last = 1 \<rparr>] \<rparr>"
  let ?sc1 = "\<lparr> sc_info = [(line_ex 0 MT_COLOR_HDEFAULT)\<lparr> l_search_cnt := 0 \<rparr>, ?l1,
          line_ex 0 MT_COLOR_UNSET],
       sc_last = Suc 0, sc_max = 3, sc_quote = quote_init \<rparr>"
  let ?sp1 = "\<lparr> sc_info = [line_ex 0 MT_COLOR_HDEFAULT, ?l1, line_ex 0 MT_COLOR_UNSET],
       sc_last = Suc 0, sc_max = 3, sc_quote = quote_init \<rparr>"
  have top: "l_continuation (rd_line_info rd_wide ! rd_topline rd_wide) = 0"
    by (simp add: rd_wide_def line_ex_def)
  have L: "count_logical (rd_line_info rd_wide) (rd_topline rd_wide) = 1"
    by (simp add: rd_wide_def line_ex_def count_logical_def)
  have ff: "flow_flags ?rd0 = {MUTT_TYPES, MUTT_SEARCH}" "flow_flags ?rp = {MUTT_TYPES}"
    by (auto simp: flow_flags_def rd_wide_def redraw_flow_reset_def)
  have l0: "rd_lines ?rd0 = 1" "rd_lines ?rp = 1"
    using L by (simp_all add: redraw_flow_reset_def rd_wide_def)
  have rp: "scan_of ?rp = scan_of ?rd0"
    by (simp add: scan_of_def redraw_flow_reset_def rd_wide_def)
  have d0: "display_line_scan penv_narrow 0 (flow_flags ?rd0) (scan_of ?rd0) = Some (Inr (0, ?sc1))"
    by (simp only: ff reset_wide narrow_scan0)
  have dp: "display_line_scan penv_narrow 0 (flow_flags ?rp) (scan_of ?rp) = Some (Inr (0, ?sp1))"
    by (simp only: ff rp reset_wide narrow_scan0_plain)
  have step: "flow_loop penv_narrow 0 (-1) ?rd0 = flow_loop penv_narrow (0 + 1) (-1 + 1) (put_scan ?sc1 ?rd0)"
    by (subst flow_loop.simps) (simp add: d0 l0 line_ex_def del: One_nat_def)
  have stepp: "flow_loop penv_narrow 0 (-1) ?rp = flow_loop penv_narrow (0 + 1) (-1 + 1) (put_scan ?sp1 ?rp)"
    by (subst flow_loop.simps) (simp add: dp l0 line_ex_def del: One_nat_def)
  have inv: "narrow_inv (0 + 1) (put_scan ?sc1 ?rd0)" "narrow_inv (0 + 1) (put_scan ?sp1 ?rp)"
    by (auto simp: narrow_inv_def put_scan_def line_ex_def line_new_def less_Suc_eq nth_Cons')
  from step stepp flow_loop_narrow_None [OF inv(1)] flow_loop_narrow_None [OF inv(2)] top L
  show ?thesis by (simp only: redraw_flow_def)
qed


end

